theory Spec2Isabelle
  imports Complex_Main "HOL-Library.Sublist" "HOL-Library.Multiset" "HOL-Library.Log_Nat"
begin

section \<open>Python values\<close>

text \<open>
  A Python \<^verbatim>\<open>str\<close> is modelled as a \<^typ>\<open>string\<close>, every \<^typ>\<open>char\<close> standing for one
  code point below 256 (Latin-1). The rupee and euro signs of the currency prefixes are
  outside that range; the prefixes capture nothing (see the token scanner below).

  A Python \<^verbatim>\<open>float\<close> is a double: the rational number it stands for, or infinity. Every
  float operation of the parsers is the exact operation followed by the rounding to the
  nearest double, ties to the even mantissa (\<open>nearest_double\<close>, with the subnormal numbers
  and the overflow to infinity): \<^verbatim>\<open>float(s)\<close>, \<^verbatim>\<open>float(n)\<close>, the division and the final
  conversion of \<^verbatim>\<open>round(x, 2)\<close>, which first rounds the exact value of \<open>x\<close> to hundredths,
  ties to even. No float of the parsers is negative or not a number. \<^verbatim>\<open>float(n)\<close> raises
  \<^verbatim>\<open>OverflowError\<close> for an integer that rounds beyond the largest double.

  Functions keep their names in the source without the leading underscore. The variables
  \<^verbatim>\<open>ln\<close>, \<^verbatim>\<open>total\<close>, \<^verbatim>\<open>top\<close> and \<^verbatim>\<open>second\<close> are written \<open>line\<close>, \<open>total_val\<close>,
  \<open>top_val\<close> and \<open>second_val\<close>, the shorter names being constants of the logic.
\<close>

datatype py_error = OverflowError

datatype pyfloat = Fin rat | PInf

datatype py_num = PyInt int | PyFloat rat | PyNonFinite

definition is_digit :: "char \<Rightarrow> bool" where
  \<comment> \<open>\<^verbatim>\<open>\d\<close> and \<^verbatim>\<open>[0-9]\<close>: below code point 256 the only decimal digits are the ASCII ones\<close>
  "is_digit c = (c \<in> set ''0123456789'')"

definition is_space :: "char \<Rightarrow> bool" where
  \<comment> \<open>\<^verbatim>\<open>str.isspace\<close> and \<^verbatim>\<open>\s\<close> on code points below 256\<close>
  "is_space c = (of_char c \<in> set [9, 10, 11, 12, 13, 28, 29, 30, 31, 32, 133, 160 :: nat])"

definition digit_val :: "char \<Rightarrow> nat" where
  "digit_val c = of_char c - 48"

definition dec_val :: "string \<Rightarrow> nat" where
  "dec_val s = foldl (\<lambda>a c. 10 * a + digit_val c) 0 s"

definition py_strip :: "string \<Rightarrow> string" where
  "py_strip s = rev (dropWhile is_space (rev (dropWhile is_space s)))"

definition strip_char :: "char \<Rightarrow> string \<Rightarrow> string" where
  \<comment> \<open>\<^verbatim>\<open>s.strip(c)\<close>\<close>
  "strip_char c s = rev (dropWhile (\<lambda>x. x = c) (rev (dropWhile (\<lambda>x. x = c) s)))"

definition py_remove :: "char \<Rightarrow> string \<Rightarrow> string" where
  \<comment> \<open>\<^verbatim>\<open>s.replace(c, '')\<close>\<close>
  "py_remove c s = filter (\<lambda>x. x \<noteq> c) s"

definition py_replace :: "char \<Rightarrow> char \<Rightarrow> string \<Rightarrow> string" where
  \<comment> \<open>\<^verbatim>\<open>s.replace(a, b)\<close> for single characters\<close>
  "py_replace a b s = map (\<lambda>x. if x = a then b else x) s"

definition py_rfind :: "char \<Rightarrow> string \<Rightarrow> int" where
  \<comment> \<open>\<^verbatim>\<open>s.rfind(c)\<close>: index of the last occurrence, \<open>-1\<close> when there is none\<close>
  "py_rfind c s =
     (if c \<in> set s then int (length s) - 1 - int (length (takeWhile (\<lambda>x. x \<noteq> c) (rev s)))
      else - 1)"

fun py_split :: "char \<Rightarrow> string \<Rightarrow> string list" where
  "py_split c [] = [[]]"
| "py_split c (x # xs) =
     (if x = c then [] # py_split c xs
      else (case py_split c xs of p # ps \<Rightarrow> (x # p) # ps | [] \<Rightarrow> [[x]]))"

definition int_max_str_digits :: nat where
  \<comment> \<open>CPython's default limit on the length of a decimal string given to \<^verbatim>\<open>int\<close>\<close>
  "int_max_str_digits = 4300"

definition py_int :: "string \<Rightarrow> int option" where
  \<comment> \<open>\<^verbatim>\<open>int(s)\<close> on a string of digits, \<open>.\<close> and \<open>,\<close>; \<open>None\<close> is the \<^verbatim>\<open>ValueError\<close>
      that every call site catches\<close>
  "py_int s =
     (if s \<noteq> [] \<and> list_all is_digit s \<and> length s \<le> int_max_str_digits
      then Some (int (dec_val s)) else None)"

definition round_half_even :: "rat \<Rightarrow> int" where
  "round_half_even y =
     (if y - of_int \<lfloor>y\<rfloor> < 1 / 2 then \<lfloor>y\<rfloor>
      else if y - of_int \<lfloor>y\<rfloor> > 1 / 2 then \<lfloor>y\<rfloor> + 1
      else if even \<lfloor>y\<rfloor> then \<lfloor>y\<rfloor> else \<lfloor>y\<rfloor> + 1)"

definition ilog2 :: "rat \<Rightarrow> int" where
  \<comment> \<open>the exponent \<open>a\<close> with \<open>2\<^sup>a \<le> x < 2\<^sup>a\<^sup>+\<^sup>1\<close>, for a positive \<open>x\<close>\<close>
  "ilog2 x = (if 1 \<le> x then bitlen \<lfloor>x\<rfloor> - 1 else - bitlen (\<lceil>1 / x\<rceil> - 1))"

definition nearest_double :: "rat \<Rightarrow> rat" where
  \<comment> \<open>the rounding to 53 bits of mantissa, the exponent of the last bit not below \<open>-1074\<close>,
      and no upper bound on the exponent\<close>
  "nearest_double x =
     (if x = 0 then 0
      else sgn x * of_int (round_half_even (\<bar>x\<bar> / 2 powi max (ilog2 \<bar>x\<bar> - 52) (- 1074)))
             * 2 powi max (ilog2 \<bar>x\<bar> - 52) (- 1074))"

definition to_float :: "rat \<Rightarrow> pyfloat" where
  \<comment> \<open>the double of a real result that is not negative: from halfway between the largest
      double and \<open>2\<^sup>1\<^sup>0\<^sup>2\<^sup>4\<close> on it is infinity\<close>
  "to_float x = (if x \<ge> 2 ^ 1024 - 2 ^ 970 then PInf else Fin (nearest_double x))"

definition float_gt :: "pyfloat \<Rightarrow> rat \<Rightarrow> bool" where
  \<comment> \<open>\<^verbatim>\<open>x > c\<close> for a float \<open>x\<close> and an integer literal \<open>c\<close>\<close>
  "float_gt x c = (case x of Fin r \<Rightarrow> r > c | PInf \<Rightarrow> True)"

definition float_div :: "rat \<Rightarrow> rat \<Rightarrow> pyfloat" where
  \<comment> \<open>\<^verbatim>\<open>a / b\<close> for two finite floats, \<open>a\<close> not negative and \<open>b\<close> positive\<close>
  "float_div a b = to_float (a / b)"

definition py_float :: "string \<Rightarrow> pyfloat option" where
  \<comment> \<open>\<^verbatim>\<open>float(s)\<close> on a string of digits, \<open>.\<close> and \<open>,\<close>: digits with at most one point and
      at least one digit; \<open>None\<close> is the \<^verbatim>\<open>ValueError\<close> that every call site catches\<close>
  "py_float s =
     (let a = takeWhile (\<lambda>c. c \<noteq> CHR ''.'') s;
          b = drop 1 (dropWhile (\<lambda>c. c \<noteq> CHR ''.'') s)
      in if list_all is_digit a \<and> list_all is_digit b \<and> a @ b \<noteq> []
         then Some (to_float (of_nat (dec_val (a @ b)) / 10 ^ length b)) else None)"

definition py_float_of_int :: "int \<Rightarrow> py_error + rat" where
  \<comment> \<open>\<^verbatim>\<open>float(n)\<close> for \<open>n\<close> not negative: the finite double, or the exception for an integer
      that rounds beyond the largest double\<close>
  "py_float_of_int n =
     (if n \<ge> 2 ^ 1024 - 2 ^ 970 then Inl OverflowError else Inr (nearest_double (of_int n)))"

definition float_div_100 :: "int \<Rightarrow> py_error + pyfloat option" where
  \<comment> \<open>\<^verbatim>\<open>return float(val) / 100.0\<close>\<close>
  "float_div_100 val =
     (case py_float_of_int val of Inl e \<Rightarrow> Inl e | Inr f \<Rightarrow> Inr (Some (float_div f 100)))"

definition float_val :: "int \<Rightarrow> py_error + pyfloat option" where
  \<comment> \<open>\<^verbatim>\<open>return float(val)\<close>\<close>
  "float_val val =
     (case py_float_of_int val of Inl e \<Rightarrow> Inl e | Inr f \<Rightarrow> Inr (Some (Fin f)))"

definition num_of_float :: "pyfloat \<Rightarrow> py_num" where
  \<comment> \<open>a float as an element of a context list\<close>
  "num_of_float x = (case x of Fin r \<Rightarrow> PyFloat r | PInf \<Rightarrow> PyNonFinite)"

definition is_fractional :: "py_num \<Rightarrow> bool" where
  \<comment> \<open>\<^verbatim>\<open>isinstance(x, float) and not x.is_integer()\<close>; an infinity or a NaN is no integer\<close>
  "is_fractional x =
     (case x of PyInt _ \<Rightarrow> False | PyFloat r \<Rightarrow> of_int \<lfloor>r\<rfloor> \<noteq> r | PyNonFinite \<Rightarrow> True)"

definition has_fractional :: "py_num list \<Rightarrow> bool" where
  \<comment> \<open>\<^verbatim>\<open>context and any(... for x in context)\<close>; an empty or absent context is falsy\<close>
  "has_fractional ctx = (ctx \<noteq> [] \<and> list_ex is_fractional ctx)"

section \<open>The normalizer of nlp_parser.py\<close>

definition nlp_separators :: "string \<Rightarrow> string" where
  \<comment> \<open>\<^verbatim>\<open>_clean_and_convert_token\<close>, lines 38 to 58: which separator is the decimal point\<close>
  "nlp_separators s =
     (if CHR ''.'' \<in> set s \<and> CHR '','' \<in> set s then
        (if py_rfind (CHR ''.'') s > py_rfind (CHR '','') s then py_remove (CHR '','') s
         else py_replace (CHR '','') (CHR ''.'') (py_remove (CHR ''.'') s))
      else if CHR '','' \<in> set s \<and> CHR ''.'' \<notin> set s then
        (let parts = py_split (CHR '','') s
         in if length (last parts) = 2 then py_replace (CHR '','') (CHR ''.'') s
            else if length (last parts) = 3 then concat parts
            else py_replace (CHR '','') (CHR ''.'') s)
      else if CHR ''.'' \<in> set s \<and> CHR '','' \<notin> set s then
        (let parts = py_split (CHR ''.'') s
         in if length (last parts) > 2 then concat parts else s)
      else s)"

definition nlp_convert :: "string \<Rightarrow> py_num list \<Rightarrow> py_error + pyfloat option" where
  \<comment> \<open>\<^verbatim>\<open>_clean_and_convert_token\<close>, lines 60 to 79: parse, with the division by 100\<close>
  "nlp_convert s context_nums =
     (if CHR ''.'' \<in> set s then Inr (py_float s)
      else
        (case py_int s of
           None \<Rightarrow> Inr None
         | Some val \<Rightarrow>
             if length s \<ge> 5 then float_div_100 val
             else if has_fractional context_nums \<and> length s \<ge> 4 then float_div_100 val
             else float_val val))"

definition clean_and_convert_token :: "string \<Rightarrow> py_num list \<Rightarrow> py_error + pyfloat option" where
  "clean_and_convert_token tok context_nums =
     (let s = py_strip tok;
          s = filter (\<lambda>c. is_digit c \<or> c = CHR ''.'' \<or> c = CHR '','') s
      in if s = [] then Inr None
         else nlp_convert (nlp_separators s) context_nums)"

section \<open>The normalizer of ocr_parser.py\<close>

definition full_number :: "string \<Rightarrow> bool" where
  \<comment> \<open>\<^verbatim>\<open>re.fullmatch(r'\d+(\.\d+)?', s)\<close>\<close>
  "full_number s =
     (let a = takeWhile is_digit s; r = dropWhile is_digit s
      in a \<noteq> [] \<and> (r = [] \<or> (hd r = CHR ''.'' \<and> tl r \<noteq> [] \<and> list_all is_digit (tl r))))"

definition ocr_separators :: "string \<Rightarrow> string" where
  \<comment> \<open>\<^verbatim>\<open>_normalize_number_token\<close>, lines 68 to 100\<close>
  "ocr_separators s =
     (if CHR ''.'' \<in> set s \<and> CHR '','' \<in> set s then
        (let (dec, thou) =
               (if py_rfind (CHR ''.'') s > py_rfind (CHR '','') s
                then (CHR ''.'', CHR '','') else (CHR '','', CHR ''.''))
         in py_replace dec (CHR ''.'') (py_remove thou s))
      else if CHR '','' \<in> set s \<and> CHR ''.'' \<notin> set s then
        (let parts = py_split (CHR '','') s
         in if length (last parts) = 2 then py_replace (CHR '','') (CHR ''.'') s
            else if length (last parts) = 3 \<and> length parts > 1 then concat parts
            else py_replace (CHR '','') (CHR ''.'') s)
      else if CHR ''.'' \<in> set s \<and> CHR '','' \<notin> set s then
        (let parts = py_split (CHR ''.'') s
         in if length (last parts) \<le> 2 then s else concat parts)
      else s)"

definition ocr_convert :: "string \<Rightarrow> py_num list \<Rightarrow> py_error + pyfloat option" where
  \<comment> \<open>\<^verbatim>\<open>_normalize_number_token\<close>, lines 107 to 140\<close>
  "ocr_convert s context_numbers =
     (if s = [] then Inr None
      else if CHR ''.'' \<in> set s then Inr (py_float s)
      else
        (case py_int s of
           None \<Rightarrow> Inr None
         | Some val \<Rightarrow>
             if length s \<le> 3 then float_val val
             else if has_fractional context_numbers then float_div_100 val
             else if length s \<ge> 5 then float_div_100 val
             else float_val val))"

definition ocr_fallback :: "string \<Rightarrow> string" where
  \<comment> \<open>\<^verbatim>\<open>_normalize_number_token\<close>, lines 104 to 106\<close>
  "ocr_fallback s =
     (if \<not> full_number s then filter (\<lambda>c. is_digit c \<or> c = CHR ''.'') s else s)"

definition normalize_number_token :: "string \<Rightarrow> py_num list \<Rightarrow> py_error + pyfloat option" where
  \<comment> \<open>the successive assignments to \<^verbatim>\<open>s\<close> of lines 63 to 106, composed\<close>
  "normalize_number_token tok context_numbers =
     (if tok = [] \<or> \<not> list_ex is_digit tok then Inr None
      else
        ocr_convert
          (ocr_fallback
            (strip_char (CHR ''.'')
              (ocr_separators
                (filter (\<lambda>c. is_digit c \<or> c = CHR '','' \<or> c = CHR ''.'' \<or> c = CHR ''-'')
                  (py_strip tok)))))
          context_numbers)"

section \<open>Strings, lines and the regular expressions of the parsers\<close>

definition py_lower_char :: "char \<Rightarrow> char" where
  \<comment> \<open>\<^verbatim>\<open>str.lower\<close> on one code point below 256: A to Z, and the accented capitals
      192 to 222 without the multiplication sign 215\<close>
  "py_lower_char c =
     (let n = (of_char c :: nat)
      in if (65 \<le> n \<and> n \<le> 90) \<or> (192 \<le> n \<and> n \<le> 222 \<and> n \<noteq> 215)
         then char_of (n + 32) else c)"

definition py_lower :: "string \<Rightarrow> string" where
  "py_lower s = map py_lower_char s"

definition is_linebreak :: "char \<Rightarrow> bool" where
  \<comment> \<open>the line boundaries of \<^verbatim>\<open>str.splitlines\<close> below code point 256\<close>
  "is_linebreak c = (of_char c \<in> set [10, 11, 12, 13, 28, 29, 30, 133 :: nat])"

definition cons_line :: "char \<Rightarrow> string list \<Rightarrow> string list" where
  \<comment> \<open>put a character in front of the first line\<close>
  "cons_line c ls = (case ls of [] \<Rightarrow> [[c]] | l # ls' \<Rightarrow> (c # l) # ls')"

fun splitlines :: "string \<Rightarrow> string list" where
  \<comment> \<open>\<^verbatim>\<open>str.splitlines()\<close>: a carriage return followed by a line feed is one boundary, and
      a final boundary opens no empty line\<close>
  "splitlines [] = []"
| "splitlines [c] = (if is_linebreak c then [[]] else [[c]])"
| "splitlines (c # d # cs) =
     (if of_char c = (13 :: nat) \<and> of_char d = (10 :: nat) then [] # splitlines cs
      else if is_linebreak c then [] # splitlines (d # cs)
      else cons_line c (splitlines (d # cs)))"

definition text_lines :: "string \<Rightarrow> string list" where
  \<comment> \<open>\<^verbatim>\<open>[l.strip() for l in raw_text.splitlines() if l.strip()]\<close>\<close>
  "text_lines raw_text = map py_strip (filter (\<lambda>l. py_strip l \<noteq> []) (splitlines raw_text))"

definition last_n :: "nat \<Rightarrow> 'a list \<Rightarrow> 'a list" where
  \<comment> \<open>the slice \<^verbatim>\<open>xs[-n:]\<close> for positive \<open>n\<close>\<close>
  "last_n n xs = drop (length xs - n) xs"

fun py_contains :: "string \<Rightarrow> string \<Rightarrow> bool" where
  \<comment> \<open>\<^verbatim>\<open>sub in s\<close>\<close>
  "py_contains sub [] = (sub = [])"
| "py_contains sub (x # xs) = (prefix sub (x # xs) \<or> py_contains sub xs)"

fun py_find :: "string \<Rightarrow> string \<Rightarrow> nat option" where
  \<comment> \<open>\<^verbatim>\<open>s.find(sub)\<close>: the first index, \<open>None\<close> for \<open>-1\<close>\<close>
  "py_find sub [] = (if sub = [] then Some 0 else None)"
| "py_find sub (x # xs) =
     (if prefix sub (x # xs) then Some 0 else map_option Suc (py_find sub xs))"

definition is_numch :: "char \<Rightarrow> bool" where
  \<comment> \<open>the class \<^verbatim>\<open>[0-9\.,]\<close>\<close>
  "is_numch c = (is_digit c \<or> c = CHR ''.'' \<or> c = CHR '','')"

text \<open>
  The numeric token \<^verbatim>\<open>[0-9][0-9\.,]{0,20}[0-9]\<close> at the start of a string: a digit, the
  longest run of at most 20 token characters that a digit follows, and that digit. The
  greedy repetition backtracks to the last digit among the first 21 token characters after
  the opening digit.
\<close>

definition match_amount :: "string \<Rightarrow> string option" where
  "match_amount s =
     (case s of
        [] \<Rightarrow> None
      | d # r \<Rightarrow>
          if \<not> is_digit d then None
          else
            (let w = rev (dropWhile (\<lambda>c. \<not> is_digit c) (rev (take 21 (takeWhile is_numch r))))
             in if w = [] then None else Some (d # w)))"

text \<open>
  \<^verbatim>\<open>finditer\<close> of \<^verbatim>\<open>_AMT_RE\<close> and of \<^verbatim>\<open>_NUM_TOKEN_RE\<close>, as the list of the captured
  tokens. The scan tries every position from the left and resumes after a match; the
  counter holds the characters of the current match still to be skipped. The optional
  currency prefix and the white space of these two expressions hold no digit, so they
  move the start of a match to the left of the token but never change which token is
  captured, nor where the match ends; the scan is the same for both expressions.
\<close>

fun amount_tokens_from :: "nat \<Rightarrow> string \<Rightarrow> string list" where
  "amount_tokens_from k [] = []"
| "amount_tokens_from k (x # xs) =
     (if k > 0 then amount_tokens_from (k - 1) xs
      else
        (case match_amount (x # xs) of
           Some tok \<Rightarrow> tok # amount_tokens_from (length tok - 1) xs
         | None \<Rightarrow> amount_tokens_from 0 xs))"

definition amount_tokens :: "string \<Rightarrow> string list" where
  "amount_tokens s = amount_tokens_from 0 s"

fun search_digits8 :: "string \<Rightarrow> bool" where
  \<comment> \<open>\<^verbatim>\<open>re.search(r'\d{8,}', line)\<close>\<close>
  "search_digits8 [] = False"
| "search_digits8 (x # xs) = (length (takeWhile is_digit (x # xs)) \<ge> 8 \<or> search_digits8 xs)"

definition date_like :: "string \<Rightarrow> bool" where
  \<comment> \<open>\<^verbatim>\<open>re.search(r'[/\\\-]{1,}', line) and re.search(r'\d', line)\<close>\<close>
  "date_like line =
     (list_ex (\<lambda>c. c = CHR ''/'' \<or> c = CHR 0x5C \<or> c = CHR ''-'') line \<and> list_ex is_digit line)"

definition nlp_metadata_keywords :: "string list" where
  "nlp_metadata_keywords =
     [''invoice'', ''invoice no'', ''invoice#'', ''bill no'', ''bill#'', ''date'', ''time'',
      ''gst'', ''tax'', ''subtotal'', ''amount due'', ''total due'', ''amount'', ''phone'',
      ''tel'', ''mobile'', ''order no'', ''qty'', ''quantity'', ''id'', ''paid'', ''change'',
      ''receipt'']"

definition ocr_metadata_keywords :: "string list" where
  "ocr_metadata_keywords =
     [''invoice'', ''invoice no'', ''invoice#'', ''bill no'', ''bill#'', ''date'', ''time'',
      ''gst'', ''tax'', ''subtotal'', ''total due'', ''amount due'', ''amount'', ''phone'',
      ''tel'', ''mobile'', ''order no'', ''order#'', ''qty'', ''quantity'', ''id'', ''cash'',
      ''card'', ''paid'', ''change'', ''receipt'', ''taxable'', ''vat'', ''tin'', ''gstin'',
      ''merchant'', ''address'', ''email'']"

definition metadata_line :: "string list \<Rightarrow> string \<Rightarrow> bool" where
  \<comment> \<open>the body shared by the two \<^verbatim>\<open>_is_metadata_line\<close>, over the keyword list of the module\<close>
  "metadata_line keywords line =
     (list_ex (\<lambda>k. py_contains k (py_lower line)) keywords
      \<or> date_like line \<or> search_digits8 line)"

definition nlp_is_metadata_line :: "string \<Rightarrow> bool" where
  "nlp_is_metadata_line line = metadata_line nlp_metadata_keywords line"

definition ocr_is_metadata_line :: "string \<Rightarrow> bool" where
  "ocr_is_metadata_line line = metadata_line ocr_metadata_keywords line"

definition py_round2 :: "rat \<Rightarrow> rat" where
  \<comment> \<open>\<^verbatim>\<open>round(x, 2)\<close> of a finite float: the exact value to the nearest hundredth, a tie to
      the even one, and then the double nearest to that decimal\<close>
  "py_round2 x = nearest_double (of_int (round_half_even (x * 100)) / 100)"

definition py_round2f :: "pyfloat \<Rightarrow> pyfloat" where
  \<comment> \<open>\<^verbatim>\<open>round(x, 2)\<close>; an infinity is returned as it is\<close>
  "py_round2f x = (case x of Fin r \<Rightarrow> Fin (py_round2 r) | PInf \<Rightarrow> PInf)"

section \<open>The total resolver of nlp_parser.py\<close>

definition nlp_context_numbers :: "string list \<Rightarrow> py_num list" where
  \<comment> \<open>\<^verbatim>\<open>find_total_amount\<close>, lines 95 to 105: the tokens with a point, as floats\<close>
  "nlp_context_numbers lines =
     map num_of_float
       (List.map_filter
          (\<lambda>tok. if CHR ''.'' \<in> set tok then py_float (py_remove (CHR '','') tok) else None)
          (concat (map amount_tokens lines)))"

definition kw_tail :: "string \<Rightarrow> string option" where
  \<comment> \<open>\<^verbatim>\<open>\s*[:\-]?\s*([0-9][0-9\.,]{0,20}[0-9])\<close> at the start of a string\<close>
  "kw_tail u =
     (let u1 = dropWhile is_space u;
          u2 = (case u1 of [] \<Rightarrow> [] | c # r \<Rightarrow> if c = CHR '':'' \<or> c = CHR ''-'' then r else u1)
      in match_amount (dropWhile is_space u2))"

definition kw_here :: "string \<Rightarrow> string \<Rightarrow> string option" where
  \<comment> \<open>one alternative of the keyword group, matched without regard to case, and the rest\<close>
  "kw_here kw t =
     (if py_lower (take (length kw) t) = kw then kw_tail (drop (length kw) t) else None)"

definition total_kw_here :: "string \<Rightarrow> string option" where
  \<comment> \<open>\<^verbatim>\<open>total_kw_re\<close> at the start of a string: the alternatives in their order\<close>
  "total_kw_here t =
     (case kw_here ''total'' t of Some tok \<Rightarrow> Some tok | None \<Rightarrow>
     (case kw_here ''amount due'' t of Some tok \<Rightarrow> Some tok | None \<Rightarrow>
     (case kw_here ''amount payable'' t of Some tok \<Rightarrow> Some tok | None \<Rightarrow>
      kw_here ''amount'' t)))"

fun total_kw_search :: "string \<Rightarrow> string option" where
  \<comment> \<open>\<^verbatim>\<open>total_kw_re.search(ln)\<close>, giving \<^verbatim>\<open>m.group(2)\<close>: the leftmost match\<close>
  "total_kw_search [] = None"
| "total_kw_search (x # xs) =
     (case total_kw_here (x # xs) of Some tok \<Rightarrow> Some tok | None \<Rightarrow> total_kw_search xs)"

definition phase1_line :: "py_num list \<Rightarrow> string \<Rightarrow> py_error + pyfloat option" where
  \<comment> \<open>one turn of the loop of lines 109 to 118: \<open>Some\<close> is the value returned at this
      line, \<open>None\<close> goes on to the next line\<close>
  "phase1_line context_numbers line =
     (if nlp_is_metadata_line line \<and> \<not> py_contains ''total'' (py_lower line) then Inr None
      else
        (case total_kw_search line of
           None \<Rightarrow> Inr None
         | Some raw_tok \<Rightarrow>
             (case clean_and_convert_token raw_tok context_numbers of
                Inl e \<Rightarrow> Inl e
              | Inr None \<Rightarrow> Inr None
              | Inr (Some total_val) \<Rightarrow>
                  if float_gt total_val 0 then Inr (Some (py_round2f total_val)) else Inr None)))"

fun phase1 :: "py_num list \<Rightarrow> string list \<Rightarrow> py_error + pyfloat option" where
  "phase1 context_numbers [] = Inr None"
| "phase1 context_numbers (line # lines) =
     (case phase1_line context_numbers line of
        Inl e \<Rightarrow> Inl e
      | Inr (Some total_val) \<Rightarrow> Inr (Some total_val)
      | Inr None \<Rightarrow> phase1 context_numbers lines)"

fun token_candidates ::
  "py_num list \<Rightarrow> string \<Rightarrow> string list \<Rightarrow> py_error + (rat \<times> string) list" where
  \<comment> \<open>the inner loop of lines 125 to 128 over the tokens of one line; an infinity is not
      below 10000000, so the candidates are finite\<close>
  "token_candidates context_numbers line [] = Inr []"
| "token_candidates context_numbers line (tok # toks) =
     (case clean_and_convert_token tok context_numbers of
        Inl e \<Rightarrow> Inl e
      | Inr val \<Rightarrow>
          (case token_candidates context_numbers line toks of
             Inl e \<Rightarrow> Inl e
           | Inr cs \<Rightarrow>
               Inr ((case val of
                       None \<Rightarrow> []
                     | Some PInf \<Rightarrow> []
                     | Some (Fin v) \<Rightarrow> if 0 < v \<and> v < 10000000 then [(v, line)] else [])
                    @ cs)))"

fun collect_candidates ::
  "py_num list \<Rightarrow> string list \<Rightarrow> py_error + (rat \<times> string) list" where
  \<comment> \<open>the loop of lines 122 to 128\<close>
  "collect_candidates context_numbers [] = Inr []"
| "collect_candidates context_numbers (line # lines) =
     (if nlp_is_metadata_line line then collect_candidates context_numbers lines
      else
        (case token_candidates context_numbers line (amount_tokens line) of
           Inl e \<Rightarrow> Inl e
         | Inr cs \<Rightarrow>
             (case collect_candidates context_numbers lines of
                Inl e \<Rightarrow> Inl e
              | Inr cs' \<Rightarrow> Inr (cs @ cs'))))"

definition pick_total :: "(rat \<times> string) list \<Rightarrow> rat option" where
  \<comment> \<open>lines 130 to 141; \<^verbatim>\<open>sorted(..., reverse=True)\<close> is stable, as \<^const>\<open>sort_key\<close> is\<close>
  "pick_total candidates =
     (case sort_key (\<lambda>x. - fst x) candidates of
        [] \<Rightarrow> None
      | [(top_val, l)] \<Rightarrow> Some (py_round2 top_val)
      | (top_val, l) # (second_val, l') # rest \<Rightarrow>
          if second_val > 0 \<and> float_gt (float_div top_val second_val) 50
          then Some (py_round2 second_val)
          else Some (py_round2 top_val))"

definition phase2 :: "py_num list \<Rightarrow> string list \<Rightarrow> py_error + pyfloat option" where
  "phase2 context_numbers lines =
     (case collect_candidates context_numbers lines of
        Inl e \<Rightarrow> Inl e
      | Inr candidates \<Rightarrow> Inr (map_option Fin (pick_total candidates)))"

definition resolve_lines :: "string list \<Rightarrow> py_error + pyfloat option" where
  \<comment> \<open>\<^verbatim>\<open>find_total_amount\<close> from line 94 on, over the stripped non-empty lines\<close>
  "resolve_lines lines =
     (case phase1 (nlp_context_numbers lines) (rev (last_n 12 lines)) of
        Inl e \<Rightarrow> Inl e
      | Inr (Some total_val) \<Rightarrow> Inr (Some total_val)
      | Inr None \<Rightarrow> phase2 (nlp_context_numbers lines) (rev (last_n 20 lines)))"

definition find_total_amount :: "string option \<Rightarrow> py_error + pyfloat option" where
  \<comment> \<open>the argument is \<open>None\<close> for a missing text\<close>
  "find_total_amount raw_text =
     (case raw_text of
        None \<Rightarrow> Inr None
      | Some t \<Rightarrow> if t = [] then Inr None else resolve_lines (text_lines t))"

section \<open>The item extractor of ocr_parser.py\<close>

record item =
  description :: string
  price :: rat
  raw_line :: string

definition ocr_context_token :: "string \<Rightarrow> string" where
  \<comment> \<open>\<^verbatim>\<open>extract_lines_with_prices\<close>, lines 186 to 194. The four \<^verbatim>\<open>replace\<close> calls of lines
      186 and 187 delete blanks and currency marks, none of which a token holds\<close>
  "ocr_context_token tok =
     (let cleaned = tok
      in if CHR '','' \<in> set cleaned \<and> CHR ''.'' \<in> set cleaned then
           (if py_rfind (CHR ''.'') cleaned > py_rfind (CHR '','') cleaned
            then py_remove (CHR '','') cleaned
            else py_replace (CHR '','') (CHR ''.'') (py_remove (CHR ''.'') cleaned))
         else cleaned)"

definition ocr_context_numbers :: "string list \<Rightarrow> py_num list" where
  \<comment> \<open>lines 181 to 204\<close>
  "ocr_context_numbers lines =
     map num_of_float
       (List.map_filter
          (\<lambda>t. if CHR ''.'' \<in> set t then py_float (py_remove (CHR '','') t) else None)
          (map ocr_context_token (concat (map amount_tokens lines))))"

definition match_rightmost :: "string \<Rightarrow> string option" where
  \<comment> \<open>\<^verbatim>\<open>([0-9][0-9\.,]{0,20}[0-9])\s*$\<close> at the start of a string: the token is all of the
      string but its trailing white space\<close>
  "match_rightmost t =
     (let tok = rev (dropWhile is_space (rev t))
      in if 2 \<le> length tok \<and> length tok \<le> 22 \<and> list_all is_numch tok
            \<and> is_digit (hd tok) \<and> is_digit (last tok)
         then Some tok else None)"

fun rightmost_search :: "string \<Rightarrow> string option" where
  \<comment> \<open>\<^verbatim>\<open>_RIGHTMOST_NUM_RE.search(ln)\<close>, giving \<^verbatim>\<open>group(1)\<close>: the leftmost start that matches\<close>
  "rightmost_search [] = None"
| "rightmost_search (x # xs) =
     (case match_rightmost (x # xs) of Some tok \<Rightarrow> Some tok | None \<Rightarrow> rightmost_search xs)"

definition choose_token :: "string \<Rightarrow> string option" where
  \<comment> \<open>lines 212 to 220: the token at the end of the line, else the first token\<close>
  "choose_token line =
     (case rightmost_search line of
        Some tok \<Rightarrow> Some tok
      | None \<Rightarrow> (case amount_tokens line of [] \<Rightarrow> None | tok # _ \<Rightarrow> Some tok))"

fun strip_price :: "string \<Rightarrow> string \<Rightarrow> string" where
  \<comment> \<open>\<^verbatim>\<open>re.sub(re.escape(chosen) + r'\s*$', '', ln)\<close> for a non-empty \<^verbatim>\<open>chosen\<close>\<close>
  "strip_price chosen [] = []"
| "strip_price chosen (x # xs) =
     (if prefix chosen (x # xs) \<and> list_all is_space (drop (length chosen) (x # xs)) then []
      else x # strip_price chosen xs)"

definition strip_currency :: "string \<Rightarrow> string" where
  \<comment> \<open>the \<^verbatim>\<open>re.sub\<close> of line 234: leading white space, dollar and pound signs (code point 163); the euro and rupee signs lie beyond code point 255\<close>
  "strip_currency desc =
     dropWhile (\<lambda>c. is_space c \<or> c = CHR ''$'' \<or> of_char c = (163 :: nat)) desc"

definition strip_bullet :: "string \<Rightarrow> string" where
  \<comment> \<open>\<^verbatim>\<open>re.sub(r'^\d+[\.\)\-]\s*', '', desc)\<close>\<close>
  "strip_bullet desc =
     (let r = dropWhile is_digit desc
      in if takeWhile is_digit desc \<noteq> [] \<and> r \<noteq> []
            \<and> (hd r = CHR ''.'' \<or> hd r = CHR '')'' \<or> hd r = CHR ''-'')
         then dropWhile is_space (tl r) else desc)"

definition item_description :: "string \<Rightarrow> string \<Rightarrow> string" where
  \<comment> \<open>lines 232 to 236 and the placeholder of line 242\<close>
  "item_description chosen line =
     (let desc = py_strip (strip_bullet (py_strip (strip_currency (py_strip (strip_price chosen line)))))
      in if desc \<noteq> [] then desc else ''(item)'')"

definition extract_line :: "py_num list \<Rightarrow> string \<Rightarrow> py_error + item option" where
  \<comment> \<open>one turn of the loop of lines 206 to 242: the item appended, if any; an infinite
      price is above 1000000 and is dropped by line 239\<close>
  "extract_line context_numbers line =
     (if ocr_is_metadata_line line then Inr None
      else
        (case choose_token line of
           None \<Rightarrow> Inr None
         | Some chosen \<Rightarrow>
             (case normalize_number_token chosen context_numbers of
                Inl e \<Rightarrow> Inl e
              | Inr None \<Rightarrow> Inr None
              | Inr (Some PInf) \<Rightarrow> Inr None
              | Inr (Some (Fin p)) \<Rightarrow>
                  if p \<le> 0 \<or> p > 1000000 then Inr None
                  else Inr (Some \<lparr>description = item_description chosen line,
                                  price = py_round2 p, raw_line = line\<rparr>))))"

fun extract_loop :: "py_num list \<Rightarrow> string list \<Rightarrow> py_error + item list" where
  "extract_loop context_numbers [] = Inr []"
| "extract_loop context_numbers (line # lines) =
     (case extract_line context_numbers line of
        Inl e \<Rightarrow> Inl e
      | Inr r \<Rightarrow>
          (case extract_loop context_numbers lines of
             Inl e \<Rightarrow> Inl e
           | Inr results \<Rightarrow> Inr ((case r of None \<Rightarrow> [] | Some it \<Rightarrow> [it]) @ results)))"

definition extract_lines_with_prices :: "string option \<Rightarrow> py_error + item list" where
  \<comment> \<open>the argument is \<open>None\<close> for a missing text\<close>
  "extract_lines_with_prices raw_text =
     (case raw_text of
        None \<Rightarrow> Inr []
      | Some t \<Rightarrow>
          if t = [] then Inr []
          else extract_loop (ocr_context_numbers (text_lines t)) (text_lines t))"

section \<open>The person-item association of nlp_parser.py\<close>

definition is_word_char :: "char \<Rightarrow> bool" where
  \<comment> \<open>\<^verbatim>\<open>\w\<close> below code point 256: the alphanumeric characters and the underscore\<close>
  "is_word_char c =
     (let n = (of_char c :: nat)
      in (48 \<le> n \<and> n \<le> 57) \<or> (65 \<le> n \<and> n \<le> 90) \<or> n = 95 \<or> (97 \<le> n \<and> n \<le> 122)
         \<or> n \<in> set [170, 178, 179, 181, 185, 186, 188, 189, 190]
         \<or> (192 \<le> n \<and> n \<noteq> 215 \<and> n \<noteq> 247))"

definition head_opt :: "string \<Rightarrow> char option" where
  "head_opt s = (case s of [] \<Rightarrow> None | c # _ \<Rightarrow> Some c)"

definition word_boundary :: "char option \<Rightarrow> char option \<Rightarrow> bool" where
  \<comment> \<open>\<^verbatim>\<open>\b\<close> between two neighbours, \<open>None\<close> beyond either end of the string\<close>
  "word_boundary a b =
     ((case a of None \<Rightarrow> False | Some c \<Rightarrow> is_word_char c)
      \<noteq> (case b of None \<Rightarrow> False | Some c \<Rightarrow> is_word_char c))"

definition word_match_here :: "char option \<Rightarrow> string \<Rightarrow> string \<Rightarrow> bool" where
  \<comment> \<open>\<^verbatim>\<open>\b\<close>, the literal \<open>pat\<close>, \<^verbatim>\<open>\b\<close> at the start of \<open>t\<close>, after the character \<open>prev\<close>\<close>
  "word_match_here prev pat t =
     (prefix pat t \<and> word_boundary prev (head_opt t)
      \<and> word_boundary (if pat = [] then prev else Some (last pat))
            (head_opt (drop (length pat) t)))"

fun word_search_from :: "char option \<Rightarrow> string \<Rightarrow> string \<Rightarrow> bool" where
  "word_search_from prev pat [] = word_match_here prev pat []"
| "word_search_from prev pat (x # xs) =
     (word_match_here prev pat (x # xs) \<or> word_search_from (Some x) pat xs)"

definition word_search :: "string \<Rightarrow> string \<Rightarrow> bool" where
  \<comment> \<open>\<^verbatim>\<open>re.search(r'\b' + re.escape(pat) + r'\b', s)\<close> finds a match\<close>
  "word_search pat s = word_search_from None pat s"

definition py_slice :: "nat \<Rightarrow> nat \<Rightarrow> string \<Rightarrow> string" where
  \<comment> \<open>\<^verbatim>\<open>s[a:b]\<close> for indices that are not negative\<close>
  "py_slice a b s = drop a (take b s)"

definition name_assigned :: "string \<Rightarrow> string \<Rightarrow> string \<Rightarrow> bool" where
  \<comment> \<open>lines 179 to 190: whether the loop appends \<open>name\<close> for the lowered raw line\<close>
  "name_assigned lower_text raw name =
     (\<not> (name = [] \<or> length (py_strip name) < 2)
      \<and> (word_search (py_lower name) raw
         \<or> (case py_find raw lower_text of
               None \<Rightarrow> False
             | Some idx \<Rightarrow>
                 word_search (py_lower name)
                   (py_slice (idx - 80) (idx + 80 + length raw) lower_text))))"

definition dict_fromkeys :: "string list \<Rightarrow> string list" where
  \<comment> \<open>\<^verbatim>\<open>list(dict.fromkeys(assigned))\<close>: a key already present keeps its place\<close>
  "dict_fromkeys xs = foldl (\<lambda>keys x. if x \<in> set keys then keys else keys @ [x]) [] xs"

fun assign_items ::
  "string list \<Rightarrow> string \<Rightarrow> nat \<Rightarrow> item list \<Rightarrow> (nat \<times> string list) list" where
  \<comment> \<open>the loop of lines 174 to 193, from index \<open>i\<close>; the dictionary as its list of entries\<close>
  "assign_items persons lower_text i [] = []"
| "assign_items persons lower_text i (it # items) =
     (let assigned = filter (name_assigned lower_text (py_lower (raw_line it))) persons
      in (if assigned \<noteq> [] then [(i, dict_fromkeys assigned)] else [])
         @ assign_items persons lower_text (Suc i) items)"

definition detect_person_item_relations ::
  "(string \<Rightarrow> string list) \<Rightarrow> item list \<Rightarrow> string option \<Rightarrow> (nat \<times> string list) list" where
  \<comment> \<open>\<open>name_source\<close> stands for lines 153 to 169, the candidate names found in the text by
      the entity recogniser or by the capitalised-word fallback\<close>
  "detect_person_item_relations name_source items raw_text =
     (case raw_text of
        None \<Rightarrow> []
      | Some text \<Rightarrow>
          if text = [] \<or> items = [] then []
          else assign_items (name_source text) (py_lower text) 0 items)"

definition amount_shape :: "string \<Rightarrow> bool" where
  \<comment> \<open>the strings that \<^verbatim>\<open>[0-9][0-9\.,]*[0-9]\<close> matches in full, of any length\<close>
  "amount_shape s =
     (s \<noteq> [] \<and> list_all (\<lambda>c. is_digit c \<or> c = CHR ''.'' \<or> c = CHR '','') s
      \<and> is_digit (hd s) \<and> is_digit (last s))"

definition digit_ends :: "string \<Rightarrow> bool" where
  "digit_ends s = (s \<noteq> [] \<and> is_digit (hd s) \<and> is_digit (last s))"

section \<open>Properties of the rounding to doubles\<close>

lemma round_half_even_of_int: "round_half_even (of_int m) = m"
  by (simp add: round_half_even_def)

lemma ilog2_bounds_ge1:
  assumes "1 \<le> x"
  shows "2 powi (ilog2 x) \<le> x \<and> x < 2 powi (ilog2 x + 1)"
proof -
  let ?n = "\<lfloor>x\<rfloor>"
  from assms have n: "0 < ?n" by simp
  from bitlen_bounds [OF n] have b1: "2 ^ nat (bitlen ?n - 1) \<le> ?n" and b2: "?n < 2 ^ nat (bitlen ?n)"
    by auto
  from n have k: "1 \<le> bitlen ?n" using bitlen_eq_zero_iff bitlen_nonneg
    by (metis add.commute add_le_cancel_left int_one_le_iff_zero_less not_less order_le_less zero_less_one) 
  have a: "ilog2 x = bitlen ?n - 1" using assms by (simp add: ilog2_def)
  have "(2::rat) powi (bitlen ?n - 1) = 2 ^ nat (bitlen ?n - 1)"
    using k by (simp add: power_int_def)
  also have "\<dots> = of_int (2 ^ nat (bitlen ?n - 1))" by simp
  also have "\<dots> \<le> of_int ?n" using b1 by (simp only: of_int_le_iff)
  also have "\<dots> \<le> x" by simp
  finally have lo: "2 powi (ilog2 x) \<le> x" by (simp add: a)
  from b2 have "?n + 1 \<le> 2 ^ nat (bitlen ?n)" by simp
  then have "(of_int (?n + 1) :: rat) \<le> of_int (2 ^ nat (bitlen ?n))" by (simp only: of_int_le_iff)
  moreover have "x < of_int (?n + 1)" by linarith
  ultimately have "x < of_int (2 ^ nat (bitlen ?n))" by linarith
  also have "\<dots> = (2::rat) powi (bitlen ?n)" using k by (simp add: power_int_def)
  finally have "x < 2 powi (ilog2 x + 1)" by (simp add: a)
  with lo show ?thesis by simp
qed

lemma ilog2_bounds_lt1:
  assumes "0 < x" "x < 1"
  shows "2 powi (ilog2 x) \<le> x \<and> x < 2 powi (ilog2 x + 1)"
proof -
  let ?y = "1 / x"
  let ?m = "\<lceil>?y\<rceil> - 1"
  from assms have y: "1 < ?y" by simp
  then have m: "0 < ?m" by linarith
  from bitlen_bounds [OF m] have b1: "2 ^ nat (bitlen ?m - 1) \<le> ?m" and b2: "?m < 2 ^ nat (bitlen ?m)"
    by auto
  from m have k: "1 \<le> bitlen ?m"
    by (smt (verit) bitlen_eq_zero_iff bitlen_nonneg)
  have a: "ilog2 x = - bitlen ?m" using assms by (simp add: ilog2_def)
  from b2 have "?m + 1 \<le> 2 ^ nat (bitlen ?m)" by simp
  then have "(of_int (?m + 1) :: rat) \<le> of_int (2 ^ nat (bitlen ?m))" by (simp only: of_int_le_iff)
  then have "(of_int \<lceil>?y\<rceil> :: rat) \<le> 2 ^ nat (bitlen ?m)" by simp
  moreover have "?y \<le> of_int \<lceil>?y\<rceil>" by (rule le_of_int_ceiling)
  ultimately have "?y \<le> 2 ^ nat (bitlen ?m)" by (rule order_trans [rotated])
  with assms have "1 \<le> x * 2 ^ nat (bitlen ?m)"
    by (simp add: pos_divide_le_eq mult.commute)
  then have "1 / 2 ^ nat (bitlen ?m) \<le> x"
    by (simp add: pos_divide_le_eq)
  moreover have "(2::rat) powi (- bitlen ?m) = 1 / 2 ^ nat (bitlen ?m)"
    using k by (simp add: power_int_def inverse_eq_divide power_one_over)
  ultimately have lo: "2 powi (ilog2 x) \<le> x" by (simp add: a)
  have "(of_int (2 ^ nat (bitlen ?m - 1)) :: rat) \<le> of_int ?m" using b1 by (simp only: of_int_le_iff)
  moreover have "of_int ?m < ?y" by linarith
  ultimately have "2 ^ nat (bitlen ?m - 1) < ?y" by simp
  with assms have "x * 2 ^ nat (bitlen ?m - 1) < 1"
    by (simp add: pos_less_divide_eq mult.commute)
  then have "x < 1 / 2 ^ nat (bitlen ?m - 1)"
    by (simp add: pos_less_divide_eq)
  moreover have "(2::rat) powi (- bitlen ?m + 1) = 1 / 2 ^ nat (bitlen ?m - 1)"
  proof (cases "bitlen ?m = 1")
    case True
    then show ?thesis by simp
  next
    case False
    with k have "- bitlen ?m + 1 < 0" "nat (- (- bitlen ?m + 1)) = nat (bitlen ?m - 1)" by simp_all
    then show ?thesis by (simp add: power_int_def inverse_eq_divide power_one_over)
  qed
  ultimately have "x < 2 powi (ilog2 x + 1)" by (simp add: a)
  with lo show ?thesis by simp
qed

lemma ilog2_bounds: "0 < x \<Longrightarrow> 2 powi (ilog2 x) \<le> x \<and> x < 2 powi (ilog2 x + 1)"
  using ilog2_bounds_ge1 [of x] ilog2_bounds_lt1 [of x] by (cases "1 \<le> x") simp_all

lemma powi_less_imp: "(2::rat) powi a < 2 powi b \<Longrightarrow> a < b"
proof (rule ccontr)
  assume l: "(2::rat) powi a < 2 powi b" and "\<not> a < b"
  then have "b \<le> a" by simp
  then have "(2::rat) powi b \<le> 2 powi a" by (intro power_int_increasing) simp_all
  with l show False by simp
qed

lemma ilog2_unique:
  assumes "2 powi a \<le> x" "x < 2 powi (a + 1)"
  shows "ilog2 x = a"
proof -
  have "(0::rat) < 2 powi a" by simp
  with assms have x: "0 < x" by linarith
  from ilog2_bounds [OF x] assms have "(2::rat) powi a < 2 powi (ilog2 x + 1)"
    and "(2::rat) powi (ilog2 x) < 2 powi (a + 1)" by linarith+
  then have "a < ilog2 x + 1" "ilog2 x < a + 1" by (auto dest: powi_less_imp)
  then show ?thesis by simp
qed

lemma nearest_double_eval:
  assumes "2 powi a \<le> x" "x < 2 powi (a + 1)"
  shows "nearest_double x
         = of_int (round_half_even (x / 2 powi max (a - 52) (- 1074))) * 2 powi max (a - 52) (- 1074)"
proof -
  have "(0::rat) < 2 powi a" by simp
  with assms have x: "0 < x" by linarith
  then show ?thesis
    by (simp add: nearest_double_def ilog2_unique [OF assms])
qed

lemma nearest_double_fixed:
  assumes "0 < m" "m < 2 ^ 53" "- 1074 \<le> e"
  shows "nearest_double (of_int m * 2 powi e) = of_int m * 2 powi e"
proof -
  let ?x = "of_int m * (2::rat) powi e"
  have p: "(0::rat) < 2 powi e" by simp
  from assms(1) have x: "0 < ?x" by simp
  let ?a = "ilog2 ?x"
  let ?e = "max (?a - 52) (- 1074)"
  from assms(2) have "(of_int m :: rat) < of_int (2 ^ 53)" by (simp only: of_int_less_iff)
  then have "(of_int m :: rat) < 2 powi 53" by simp
  then have "?x < 2 powi 53 * 2 powi e" using p by (simp only: mult_strict_right_mono)
  also have "\<dots> = 2 powi (53 + e)" by (simp add: power_int_add)
  finally have "2 powi ?a < (2::rat) powi (53 + e)"
    using ilog2_bounds [OF x] by linarith
  then have "?a < 53 + e" by (rule powi_less_imp)
  with assms(3) have le: "?e \<le> e" by simp
  have "?x / 2 powi ?e = of_int m * 2 powi (e - ?e)"
    by (simp add: power_int_diff)
  also have "\<dots> = of_int m * 2 ^ nat (e - ?e)"
    using le by (simp add: power_int_def)
  also have "\<dots> = of_int (m * 2 ^ nat (e - ?e))" by simp
  finally have q: "?x / 2 powi ?e = of_int (m * 2 ^ nat (e - ?e))" .
  have "nearest_double ?x = of_int (round_half_even (?x / 2 powi ?e)) * 2 powi ?e"
    using x assms(1) by (simp add: nearest_double_def)
  also have "\<dots> = ?x / 2 powi ?e * 2 powi ?e"
    by (simp only: q round_half_even_of_int)
  also have "\<dots> = ?x" by simp
  finally show ?thesis .
qed

lemma nearest_double_int:
  assumes "0 \<le> m" "m < 2 ^ 53"
  shows "nearest_double (of_int m) = of_int m"
proof (cases "m = 0")
  case True
  then show ?thesis by (simp add: nearest_double_def)
next
  case False
  with assms have "0 < m" by simp
  from nearest_double_fixed [OF this assms(2), of 0] show ?thesis by simp
qed

lemma nearest_double_numeral:
  "numeral n < (2::int) ^ 53 \<Longrightarrow> nearest_double (numeral n) = numeral n"
  using nearest_double_int [of "numeral n"] by simp

lemma floor_rat_numeral: "\<lfloor>(numeral a :: rat) / numeral b\<rfloor> = numeral a div numeral b"
  by (metis floor_divide_of_int_eq of_int_numeral)

lemma floor_rat_one: "\<lfloor>(1 :: rat) / numeral b\<rfloor> = 1 div numeral b"
  by (metis floor_divide_of_int_eq of_int_1 of_int_numeral)


lemma double_threshold: "(10::rat) ^ 22 < 2 ^ 1024 - 2 ^ 970"
proof -
  have "(10::rat) ^ 22 < 2 ^ 74" by simp
  also have "(2::rat) ^ 74 \<le> 2 ^ 1023" by (intro power_increasing) simp_all
  also have "(2::rat) ^ 1023 \<le> 2 ^ Suc 1023 - 2 ^ 970"
  proof -
    have "(2::rat) ^ 970 \<le> 2 ^ 1023" by (intro power_increasing) simp_all
    moreover have "(2::rat) ^ Suc 1023 = 2 * 2 ^ 1023" by (rule power_Suc)
    ultimately show ?thesis by linarith
  qed
  also have "Suc 1023 = 1024" by simp
  finally show ?thesis .
qed

lemma to_float_small: "x < 10 ^ 22 \<Longrightarrow> to_float x = Fin (nearest_double x)"
proof -
  assume "x < 10 ^ 22"
  from this double_threshold have "x < 2 ^ 1024 - 2 ^ 970" by (rule less_trans)
  then have "\<not> 2 ^ 1024 - 2 ^ 970 \<le> x" by (rule less_le_not_le [THEN iffD1, THEN conjunct2])
  then show ?thesis unfolding to_float_def by (rule if_not_P)
qed

lemma short_int_converts:
  assumes "val < 10 ^ 22"
  shows "py_float_of_int val = Inr (nearest_double (of_int val))"
proof -
  from assms have "(of_int val :: rat) < of_int (10 ^ 22)" by (simp only: of_int_less_iff)
  then have "(of_int val :: rat) < 10 ^ 22" by simp
  from this double_threshold have "(of_int val :: rat) < 2 ^ 1024 - 2 ^ 970" by (rule less_trans)
  also have "(2 ^ 1024 - 2 ^ 970 :: rat) = of_int (2 ^ 1024 - 2 ^ 970)" by (simp only: of_int_diff of_int_power of_int_numeral)
  finally have "val < 2 ^ 1024 - 2 ^ 970" by (simp only: of_int_less_iff)
  then have "\<not> 2 ^ 1024 - 2 ^ 970 \<le> val" by (rule less_le_not_le [THEN iffD1, THEN conjunct2])
  then show ?thesis unfolding py_float_of_int_def by (rule if_not_P)
qed

lemmas double_evals =
  to_float_small short_int_converts nearest_double_numeral float_div_def
  float_div_100_def float_val_def float_gt_def

section \<open>Properties of the normalizers\<close>

lemmas normalizer_defs =
  clean_and_convert_token_def nlp_separators_def nlp_convert_def
  normalize_number_token_def ocr_separators_def ocr_convert_def ocr_fallback_def
  full_number_def
  py_strip_def strip_char_def py_rfind_def py_remove_def py_replace_def
  py_int_def py_float_def double_evals
  int_max_str_digits_def dec_val_def digit_val_def is_digit_def is_space_def

lemma digit_not_space: "is_digit c \<Longrightarrow> \<not> is_space c"
  by (auto simp: is_digit_def is_space_def)

lemma digit_not_sep: "is_digit c \<Longrightarrow> c \<noteq> CHR ''.'' \<and> c \<noteq> CHR '','' \<and> c \<noteq> CHR ''-''"
  by (auto simp: is_digit_def)

lemma strip_ends:
  assumes "s \<noteq> []" "\<not> P (hd s)" "\<not> P (last s)"
  shows "rev (dropWhile P (rev (dropWhile P s))) = s"
proof -
  from assms have a: "dropWhile P s = s" by (cases s) auto
  from assms have "rev s \<noteq> []" "\<not> P (hd (rev s))" by (auto simp: hd_rev)
  then have "dropWhile P (rev s) = rev s" by (cases "rev s") auto
  with a show ?thesis by simp
qed

lemma filter_keeps_ends:
  assumes "s \<noteq> []" "P (hd s)" "P (last s)"
  shows "filter P s \<noteq> [] \<and> hd (filter P s) = hd s \<and> last (filter P s) = last s"
proof -
  from assms obtain x xs where s: "s = x # xs" by (cases s) auto
  with assms have h: "filter P s = x # filter P xs" by simp
  have l: "last (filter P s) = last s"
  proof (cases "xs = []")
    case True with s assms show ?thesis by simp
  next
    case False
    then obtain ys y where xs: "xs = ys @ [y]" by (metis rev_exhaust)
    with s assms have "P y" by simp
    with s xs show ?thesis by simp
  qed
  from h l s show ?thesis by simp
qed

lemma py_split_nonempty: "py_split c s \<noteq> []"
  by (induction s) (auto split: list.splits)

lemma concat_py_split: "concat (py_split c s) = filter (\<lambda>x. x \<noteq> c) s"
  by (induction s) (auto split: list.splits simp: py_split_nonempty)

lemma length_py_split: "c \<in> set s \<Longrightarrow> Suc 0 < length (py_split c s)"
  using py_split_nonempty [of c] by (induction s) (auto split: list.splits)

lemma py_replace_same: "py_replace c c s = s"
  by (simp add: py_replace_def map_idI)

lemma separators_agree: "ocr_separators s = nlp_separators s"
  by (auto simp: ocr_separators_def nlp_separators_def Let_def py_replace_same length_py_split)

lemma convert_agree: "s \<noteq> [] \<Longrightarrow> ocr_convert s ctx = nlp_convert s ctx"
  by (auto simp: ocr_convert_def nlp_convert_def split: option.splits)

lemma digit_ends_remove:
  "digit_ends s \<Longrightarrow> c = CHR ''.'' \<or> c = CHR '','' \<Longrightarrow> digit_ends (py_remove c s)"
  unfolding digit_ends_def py_remove_def
  using filter_keeps_ends [of s "\<lambda>x. x \<noteq> c"] digit_not_sep by metis

lemma digit_ends_replace: "digit_ends s \<Longrightarrow> digit_ends (py_replace (CHR '','') (CHR ''.'') s)"
  unfolding digit_ends_def py_replace_def
  using digit_not_sep by (auto simp: hd_map last_map)

lemma nlp_separators_cases:
  "nlp_separators s = py_remove (CHR '','') s
   \<or> nlp_separators s = py_replace (CHR '','') (CHR ''.'') (py_remove (CHR ''.'') s)
   \<or> nlp_separators s = py_replace (CHR '','') (CHR ''.'') s
   \<or> (nlp_separators s = py_remove (CHR ''.'') s \<and> CHR '','' \<notin> set s)
   \<or> (nlp_separators s = s \<and> CHR '','' \<notin> set s)"
  by (auto simp add: nlp_separators_def Let_def concat_py_split py_remove_def)

lemma nlp_separators_ends:
  assumes "digit_ends s"
  shows "digit_ends (nlp_separators s)"
  using nlp_separators_cases [of s] assms
  by (metis digit_ends_remove digit_ends_replace)

lemma nlp_separators_chars:
  assumes "\<forall>c\<in>set s. is_digit c \<or> c = CHR ''.'' \<or> c = CHR '',''"
  shows "\<forall>c\<in>set (nlp_separators s). is_digit c \<or> c = CHR ''.''"
proof -
  have a: "\<forall>c\<in>set (py_remove (CHR '','') s). is_digit c \<or> c = CHR ''.''"
    using assms by (auto simp: py_remove_def)
  have b: "\<forall>c\<in>set (py_replace (CHR '','') (CHR ''.'') t). is_digit c \<or> c = CHR ''.''"
    if "\<forall>c\<in>set t. is_digit c \<or> c = CHR ''.'' \<or> c = CHR '',''" for t
    using that by (auto simp: py_replace_def)
  have c: "\<forall>c\<in>set (py_remove (CHR ''.'') s). is_digit c \<or> c = CHR ''.'' \<or> c = CHR '',''"
    using assms by (auto simp: py_remove_def)
  have d: "\<forall>c\<in>set t. is_digit c \<or> c = CHR ''.''"
    if "CHR '','' \<notin> set s" "set t \<subseteq> set s" for t
    using that assms by blast
  have e: "set (py_remove (CHR ''.'') s) \<subseteq> set s"
    by (auto simp: py_remove_def)
  from nlp_separators_cases [of s] show ?thesis
  proof (elim disjE conjE)
    assume "nlp_separators s = py_remove (CHR '','') s"
    with a show ?thesis by simp
  next
    assume "nlp_separators s = py_replace (CHR '','') (CHR ''.'') (py_remove (CHR ''.'') s)"
    with b [OF c] show ?thesis by simp
  next
    assume "nlp_separators s = py_replace (CHR '','') (CHR ''.'') s"
    with b [OF assms] show ?thesis by simp
  next
    assume "nlp_separators s = py_remove (CHR ''.'') s" "CHR '','' \<notin> set s"
    with d [OF _ e] show ?thesis by simp
  next
    assume "nlp_separators s = s" "CHR '','' \<notin> set s"
    with d [of s] show ?thesis by simp
  qed
qed


lemma normalizers_reduce:
  assumes "amount_shape tok"
  shows "clean_and_convert_token tok ctx = nlp_convert (nlp_separators tok) ctx"
    and "normalize_number_token tok ctx = nlp_convert (nlp_separators tok) ctx"
proof -
  from assms have ne: "tok \<noteq> []" and h: "is_digit (hd tok)" and l: "is_digit (last tok)"
    and al: "\<forall>c\<in>set tok. is_digit c \<or> c = CHR ''.'' \<or> c = CHR '',''"
    by (auto simp: amount_shape_def list_all_iff)
  have st: "py_strip tok = tok"
    unfolding py_strip_def using strip_ends [of tok is_space] ne h l digit_not_space by blast
  have f3: "filter (\<lambda>c. is_digit c \<or> c = CHR ''.'' \<or> c = CHR '','') tok = tok"
    using al by (simp add: filter_id_conv)
  have f4: "filter (\<lambda>c. is_digit c \<or> c = CHR '','' \<or> c = CHR ''.'' \<or> c = CHR ''-'') tok = tok"
    using al by (auto simp add: filter_id_conv)
  have ex: "list_ex is_digit tok"
    using ne h by (cases tok) auto
  let ?s = "nlp_separators tok"
  have en: "digit_ends ?s"
    using nlp_separators_ends [of tok] ne h l by (simp add: digit_ends_def)
  have ch: "\<forall>c\<in>set ?s. is_digit c \<or> c = CHR ''.''"
    using nlp_separators_chars [OF al] .
  have sc: "strip_char (CHR ''.'') ?s = ?s"
    unfolding strip_char_def
    using strip_ends [of ?s "\<lambda>x. x = CHR ''.''"] en digit_not_sep
    unfolding digit_ends_def by blast
  have f2: "filter (\<lambda>c. is_digit c \<or> c = CHR ''.'') ?s = ?s"
    using ch by (simp add: filter_id_conv)
  show "clean_and_convert_token tok ctx = nlp_convert ?s ctx"
    by (simp add: clean_and_convert_token_def st f3 ne)
  have b: "normalize_number_token tok ctx = ocr_convert ?s ctx"
    by (simp add: normalize_number_token_def ocr_fallback_def st f4 ne ex separators_agree sc f2)
  from en have "?s \<noteq> []" by (simp add: digit_ends_def)
  with b show "normalize_number_token tok ctx = nlp_convert ?s ctx"
    by (simp add: convert_agree)
qed

lemma has_fractional_float: "PyFloat r \<in> set ctx \<Longrightarrow> r \<notin> \<int> \<Longrightarrow> has_fractional ctx"
proof -
  assume a: "PyFloat r \<in> set ctx" and b: "r \<notin> \<int>"
  from b have "is_fractional (PyFloat r)"
    by (auto simp: is_fractional_def Ints_def)
  with a show ?thesis
    by (auto simp: has_fractional_def list_ex_iff)
qed

lemma dec_val_snoc: "dec_val (s @ [c]) = 10 * dec_val s + digit_val c"
  by (simp add: dec_val_def)

lemma dec_val_nines: "int (dec_val (replicate n (CHR ''9''))) = 10 ^ n - 1"
proof (induction n)
  case 0
  show ?case by (simp add: dec_val_def)
next
  case (Suc n)
  have "replicate (Suc n) (CHR ''9'') = replicate n (CHR ''9'') @ [CHR ''9'']"
    by (simp add: replicate_append_same)
  then have "int (dec_val (replicate (Suc n) (CHR ''9''))) =
             10 * int (dec_val (replicate n (CHR ''9''))) + 9"
    by (simp only: dec_val_snoc) (simp add: digit_val_def)
  with Suc show ?case by simp
qed

lemma pow_bound:
  assumes "k \<le> 3 * n"
  shows "(2::int) ^ k - 2 ^ j \<le> 10 ^ n - 1"
proof -
  have "(2::int) ^ k \<le> 2 ^ (3 * n)"
    using assms by (intro power_increasing) simp_all
  also have "\<dots> = (2 ^ 3) ^ n" by (rule power_mult)
  also have "\<dots> \<le> 10 ^ n" by (intro power_mono) simp_all
  finally have a: "(2::int) ^ k \<le> 10 ^ n" .
  have "(1::int) \<le> 2 ^ j" by simp
  with a show ?thesis by linarith
qed

lemma nines_shape: "0 < n \<Longrightarrow> amount_shape (replicate n (CHR ''9''))"
  by (cases n) (simp_all add: amount_shape_def list_all_iff is_digit_def)

lemma nines_separators: "nlp_separators (replicate n (CHR ''9'')) = replicate n (CHR ''9'')"
  by (simp add: nlp_separators_def)

lemma nines_convert:
  assumes "5 \<le> n" "n \<le> 4300" "1024 \<le> 3 * n"
  shows "nlp_convert (replicate n (CHR ''9'')) ctx = Inl OverflowError"
proof -
  let ?s = "replicate n (CHR ''9'')"
  from assms have ne: "?s \<noteq> []" by auto
  have dg: "list_all is_digit ?s" by (simp add: list_all_iff is_digit_def)
  have pi: "py_int ?s = Some (10 ^ n - 1)"
    using assms ne by (simp add: py_int_def dg int_max_str_digits_def dec_val_nines)
  have ov: "py_float_of_int (10 ^ n - 1) = Inl OverflowError"
    unfolding py_float_of_int_def by (rule if_P) (rule pow_bound [OF assms(3)])
  show ?thesis
    using assms by (simp add: nlp_convert_def pi float_div_100_def ov)
qed

lemma nines_overflow:
  assumes "5 \<le> n" "n \<le> 4300" "1024 \<le> 3 * n"
  shows "clean_and_convert_token (replicate n (CHR ''9'')) ctx = Inl OverflowError
         \<and> normalize_number_token (replicate n (CHR ''9'')) ctx = Inl OverflowError"
proof -
  from assms have "amount_shape (replicate n (CHR ''9''))" by (intro nines_shape) simp
  from normalizers_reduce [OF this] nines_convert [OF assms] show ?thesis
    by (simp add: nines_separators)
qed

lemmas rounding_evals = round_half_even_def floor_rat_numeral floor_rat_one

lemma double_25_2: "nearest_double (25 / 2) = 25 / 2"
  using nearest_double_fixed [of 25 "- 1"] by simp

lemma double_12345_67: "nearest_double 12345.67 \<noteq> 1234567"
  using nearest_double_eval [of 13 "1234567 / 100"] by (simp add: rounding_evals)

lemma nlp_example1: "clean_and_convert_token ''1,234.56'' [] = Inr (Some (Fin (nearest_double 1234.56)))"
  by (simp add: normalizer_defs)
lemma nlp_example2: "clean_and_convert_token ''1.234,56'' [] = Inr (Some (Fin (nearest_double 1234.56)))"
  by (simp add: normalizer_defs)
lemma nlp_example3: "clean_and_convert_token ''12,50'' [] = Inr (Some (Fin 12.5))"
  by (simp add: normalizer_defs double_25_2)
lemma nlp_example4: "clean_and_convert_token ''1,234'' [] = Inr (Some (Fin 1234))"
  by (simp add: normalizer_defs has_fractional_def)
lemma nlp_example5: "clean_and_convert_token ''250'' [] = Inr (Some (Fin 250))"
  by (simp add: normalizer_defs has_fractional_def)
lemma nlp_example6: "clean_and_convert_token ''18099'' [] = Inr (Some (Fin (nearest_double 180.99)))"
  by (simp add: normalizer_defs has_fractional_def)
lemma nlp_example7: "clean_and_convert_token ''1809'' [] = Inr (Some (Fin 1809))"
  by (simp add: normalizer_defs has_fractional_def)
lemma nlp_example8: "has_fractional ctx \<Longrightarrow> clean_and_convert_token ''1809'' ctx = Inr (Some (Fin (nearest_double 18.09)))"
  by (simp add: normalizer_defs)
lemma nlp_example9: "clean_and_convert_token ''1.234.567'' [] = Inr (Some (Fin (nearest_double 12345.67)))"
  by (simp add: normalizer_defs)

lemma ocr_example1: "normalize_number_token ''1,234.56'' [] = Inr (Some (Fin (nearest_double 1234.56)))"
  by (simp add: normalizer_defs)
lemma ocr_example2: "normalize_number_token ''1.234,56'' [] = Inr (Some (Fin (nearest_double 1234.56)))"
  by (simp add: normalizer_defs)
lemma ocr_example3: "normalize_number_token ''12,50'' [] = Inr (Some (Fin 12.5))"
  by (simp add: normalizer_defs double_25_2)
lemma ocr_example4: "normalize_number_token ''1,234'' [] = Inr (Some (Fin 1234))"
  by (simp add: normalizer_defs has_fractional_def)
lemma ocr_example5: "normalize_number_token ''250'' [] = Inr (Some (Fin 250))"
  by (simp add: normalizer_defs has_fractional_def)
lemma ocr_example6: "normalize_number_token ''18099'' [] = Inr (Some (Fin (nearest_double 180.99)))"
  by (simp add: normalizer_defs has_fractional_def)
lemma ocr_example7: "normalize_number_token ''1809'' [] = Inr (Some (Fin 1809))"
  by (simp add: normalizer_defs has_fractional_def)
lemma ocr_example8: "has_fractional ctx \<Longrightarrow> normalize_number_token ''1809'' ctx = Inr (Some (Fin (nearest_double 18.09)))"
  by (simp add: normalizer_defs)
lemma ocr_example9: "normalize_number_token ''1.234.567'' [] = Inr (Some (Fin (nearest_double 12345.67)))"
  by (simp add: normalizer_defs)

text \<open>
  Claim C2: the normalizer maps \<^verbatim>\<open>"1.234.567"\<close>, with no fractional context, to
  \<open>1234567.0\<close>. Both normalizers remove the dots, as their comments say, and then apply
  the division by 100 meant for tokens whose decimal point was lost to the seven digits left:
  the result is \<open>12345.67\<close>.
\<close>

theorem thousands_dots_divided:
  "clean_and_convert_token ''1.234.567'' [] = Inr (Some (Fin (nearest_double 12345.67)))
   \<and> normalize_number_token ''1.234.567'' [] = Inr (Some (Fin (nearest_double 12345.67)))
   \<and> nearest_double 12345.67 \<noteq> 1234567"
  using nlp_example9 ocr_example9 double_12345_67 by simp

text \<open>
  Claim C3: with an empty context both normalizers give \<^verbatim>\<open>"1,234.56"\<close> \<open>\<mapsto>\<close> 1234.56,
  \<^verbatim>\<open>"1.234,56"\<close> \<open>\<mapsto>\<close> 1234.56, \<^verbatim>\<open>"12,50"\<close> \<open>\<mapsto>\<close> 12.50, \<^verbatim>\<open>"1,234"\<close> \<open>\<mapsto>\<close> 1234.0,
  \<^verbatim>\<open>"250"\<close> \<open>\<mapsto>\<close> 250.0, \<^verbatim>\<open>"18099"\<close> \<open>\<mapsto>\<close> 180.99 and \<^verbatim>\<open>"1809"\<close> \<open>\<mapsto>\<close> 1809.0; and with
  any context that holds a float with a fractional part, \<^verbatim>\<open>"1809"\<close> \<open>\<mapsto>\<close> 18.09.
\<close>

theorem normalizer_examples:
  "clean_and_convert_token ''1,234.56'' [] = Inr (Some (Fin (nearest_double 1234.56)))
   \<and> clean_and_convert_token ''1.234,56'' [] = Inr (Some (Fin (nearest_double 1234.56)))
   \<and> clean_and_convert_token ''12,50'' [] = Inr (Some (Fin 12.5))
   \<and> clean_and_convert_token ''1,234'' [] = Inr (Some (Fin 1234))
   \<and> clean_and_convert_token ''250'' [] = Inr (Some (Fin 250))
   \<and> clean_and_convert_token ''18099'' [] = Inr (Some (Fin (nearest_double 180.99)))
   \<and> clean_and_convert_token ''1809'' [] = Inr (Some (Fin 1809))
   \<and> normalize_number_token ''1,234.56'' [] = Inr (Some (Fin (nearest_double 1234.56)))
   \<and> normalize_number_token ''1.234,56'' [] = Inr (Some (Fin (nearest_double 1234.56)))
   \<and> normalize_number_token ''12,50'' [] = Inr (Some (Fin 12.5))
   \<and> normalize_number_token ''1,234'' [] = Inr (Some (Fin 1234))
   \<and> normalize_number_token ''250'' [] = Inr (Some (Fin 250))
   \<and> normalize_number_token ''18099'' [] = Inr (Some (Fin (nearest_double 180.99)))
   \<and> normalize_number_token ''1809'' [] = Inr (Some (Fin 1809))
   \<and> (\<forall>ctx r. PyFloat r \<in> set ctx \<and> r \<notin> \<int> \<longrightarrow>
         clean_and_convert_token ''1809'' ctx = Inr (Some (Fin (nearest_double 18.09)))
         \<and> normalize_number_token ''1809'' ctx = Inr (Some (Fin (nearest_double 18.09))))"
proof -
  have "clean_and_convert_token ''1809'' ctx = Inr (Some (Fin (nearest_double 18.09)))
        \<and> normalize_number_token ''1809'' ctx = Inr (Some (Fin (nearest_double 18.09)))"
    if "PyFloat r \<in> set ctx" "r \<notin> \<int>" for ctx r
  proof -
    from that have "has_fractional ctx" by (rule has_fractional_float)
    then show ?thesis by (simp add: nlp_example8 ocr_example8)
  qed
  then show ?thesis
    by (simp only: nlp_example1 nlp_example2 nlp_example3 nlp_example4 nlp_example5
        nlp_example6 nlp_example7 ocr_example1 ocr_example2 ocr_example3 ocr_example4
        ocr_example5 ocr_example6 ocr_example7) blast
qed

theorem normalizer_examples_witness:
  "PyFloat 12.5 \<in> set [PyFloat 12.5] \<and> (12.5 :: rat) \<notin> \<int>
   \<and> clean_and_convert_token ''1809'' [PyFloat 12.5] = Inr (Some (Fin (nearest_double 18.09)))
   \<and> normalize_number_token ''1809'' [PyFloat 12.5] = Inr (Some (Fin (nearest_double 18.09)))"
proof -
  have a: "(12.5 :: rat) \<notin> \<int>"
  proof
    assume "(12.5 :: rat) \<in> \<int>"
    then obtain z :: int where "(12.5 :: rat) = of_int z" by (auto simp: Ints_def)
    then have "(25 :: rat) = of_int (2 * z)" by simp
    then have "(25 :: int) = 2 * z" by (metis of_int_eq_iff of_int_numeral)
    then show False by presburger
  qed
  from normalizer_examples
  have u: "PyFloat r \<in> set ctx \<and> r \<notin> \<int> \<longrightarrow>
         clean_and_convert_token ''1809'' ctx = Inr (Some (Fin (nearest_double 18.09)))
         \<and> normalize_number_token ''1809'' ctx = Inr (Some (Fin (nearest_double 18.09)))" for ctx r
    by blast
  from u [of "12.5" "[PyFloat 12.5]"] a show ?thesis by simp
qed

text \<open>
  Claim C9: the normalizer never raises. Both normalizers leave \<^verbatim>\<open>float(val)\<close> outside
  their \<^verbatim>\<open>try\<close> blocks: on a token of 400 nines \<^verbatim>\<open>int(s)\<close> succeeds and
  \<^verbatim>\<open>float(val)\<close> raises \<^verbatim>\<open>OverflowError\<close>, which reaches the caller.
\<close>

theorem normalizer_overflow:
  "clean_and_convert_token (replicate 400 (CHR ''9'')) [] = Inl OverflowError
   \<and> normalize_number_token (replicate 400 (CHR ''9'')) [] = Inl OverflowError"
  by (rule nines_overflow) simp_all

text \<open>
  Claim C10: on every token made of digits, dots and commas that begins and ends with a
  digit, and for every context, \<^verbatim>\<open>_clean_and_convert_token\<close> and
  \<^verbatim>\<open>_normalize_number_token\<close> have the same outcome (the same float, both \<open>None\<close>, or
  the same exception).
\<close>

theorem normalizers_agree:
  assumes "amount_shape tok"
  shows "clean_and_convert_token tok ctx = normalize_number_token tok ctx"
  using normalizers_reduce [OF assms] by simp

theorem normalizers_agree_witness:
  "amount_shape ''1.234,56''
   \<and> clean_and_convert_token ''1.234,56'' [] = normalize_number_token ''1.234,56'' []"
  using normalizers_agree [of "''1.234,56''" "[]"]
  by (simp add: amount_shape_def is_digit_def)


section \<open>Properties of the total resolver\<close>

lemmas string_defs =
  text_lines_def py_strip_def is_space_def is_linebreak_def cons_line_def last_n_def
  py_lower_def py_lower_char_def is_numch_def is_digit_def match_amount_def amount_tokens_def
  date_like_def metadata_line_def nlp_is_metadata_line_def ocr_is_metadata_line_def
  nlp_metadata_keywords_def ocr_metadata_keywords_def
  kw_tail_def kw_here_def total_kw_here_def char_of_def bit_Suc_0_iff

lemma nearest_double_zero: "nearest_double 0 = 0"
  by (simp add: nearest_double_def)

lemmas resolver_defs =
  find_total_amount_def resolve_lines_def phase2_def pick_total_def phase1_line_def
  nlp_context_numbers_def List.map_filter_def py_round2_def py_round2f_def num_of_float_def
  rounding_evals nearest_double_zero

lemmas extractor_defs =
  extract_lines_with_prices_def extract_line_def ocr_context_numbers_def ocr_context_token_def
  match_rightmost_def choose_token_def strip_currency_def strip_bullet_def item_description_def
  List.map_filter_def py_round2_def num_of_float_def rounding_evals nearest_double_zero











lemma pick_total_sorted:
  assumes "sort_key (\<lambda>x. - fst x) cs = (t, l1) # (s, l2) # rest" "0 < s"
  shows "pick_total cs = Some (py_round2 (if float_gt (float_div t s) 50 then s else t))"
  using assms by (simp add: pick_total_def)

lemma sort_key_two:
  assumes "2 \<le> length cs"
  obtains a b rest where "sort_key f cs = a # b # rest"
proof -
  have "length (sort_key f cs) = length cs" by simp
  with assms have "2 \<le> length (sort_key f cs)" by simp
  then obtain a b rest where "sort_key f cs = a # b # rest"
    by (cases "sort_key f cs" rule: list.exhaust; cases "tl (sort_key f cs)") auto
  then show ?thesis by (rule that)
qed

lemma pick_total_rule:
  assumes "\<forall>(v, l) \<in> set cs. 0 < v \<and> v < 10000000" and "2 \<le> length cs"
  shows "\<exists>t l1 s l2 rest.
           mset ((t, l1) # (s, l2) # rest) = mset cs \<and> s \<le> t \<and> (\<forall>(v, l) \<in> set rest. v \<le> s)
           \<and> pick_total cs = Some (py_round2 (if float_gt (float_div t s) 50 then s else t))"
proof -
  let ?f = "\<lambda>x :: rat \<times> string. - fst x"
  from assms(2) obtain a b rest where srt: "sort_key ?f cs = a # b # rest"
    by (rule sort_key_two)
  obtain t l1 where a: "a = (t, l1)" by (cases a)
  obtain s l2 where b: "b = (s, l2)" by (cases b)
  have ms: "mset (a # b # rest) = mset cs"
    using srt mset_sort [of ?f cs] by simp
  have "sorted (map ?f (sort_key ?f cs))" by (rule sorted_sort_key)
  with srt a b have le: "s \<le> t" and rs: "\<forall>x \<in> set rest. fst x \<le> s"
    by auto
  have "b \<in> set cs"
    using srt set_sort [of ?f cs] by (metis list.set_intros(1) list.set_intros(2))
  with assms(1) b have pos: "0 < s" by auto
  from srt a b pos have "pick_total cs = Some (py_round2 (if float_gt (float_div t s) 50 then s else t))"
    by (intro pick_total_sorted) simp_all
  with ms le rs a b show ?thesis by fastforce
qed

lemma pick_total_single: "pick_total [(v, l)] = Some (py_round2 v)"
  by (simp add: pick_total_def)

lemma double_3_2: "nearest_double (3 / 2) = 3 / 2"
  using nearest_double_fixed [of 3 "- 1"] by simp

lemma double_3_100: "nearest_double (3 / 100) = 1080863910568919 / 2 ^ 55"
  using nearest_double_eval [of "- 6" "3 / 100"] by (simp add: rounding_evals)

lemma double_1_1000: "nearest_double (1 / 1000) = 1152921504606847 / 2 ^ 60"
  using nearest_double_eval [of "- 10" "1 / 1000"] by (simp add: rounding_evals)

lemma double_99999999_99: "nearest_double (9999999999 / 100) = 6710886399328911 / 2 ^ 26"
  using nearest_double_eval [of 26 "9999999999 / 100"] by (simp add: rounding_evals)

lemma double_1000_9: "nearest_double (1000 / 9) = 3909374676536889 / 2 ^ 45"
  using nearest_double_eval [of 6 "1000 / 9"] by (simp add: rounding_evals)

lemma double_tie_quotient: "nearest_double (54043195528445952 / 1080863910568919) = 50"
  using nearest_double_eval [of 5 "54043195528445952 / 1080863910568919"]
  by (simp add: rounding_evals)

lemmas double_values =
  double_3_2 double_3_100 double_1_1000 double_99999999_99 double_1000_9 double_tie_quotient

lemma pick_total_example: "pick_total [(50000, l1), (450, l2)] = Some 450"
  by (simp add: pick_total_def py_round2_def rounding_evals double_evals double_1000_9)

lemma phase1_skip:
  assumes "\<forall>l \<in> set xs. phase1_line ctx l = Inr None"
  shows "phase1 ctx (xs @ ys) = phase1 ctx ys"
  using assms by (induction xs) simp_all

lemma last_n_tail:
  assumes "length post < n"
  shows "last_n n (pre @ x # post) = last_n (n - 1 - length post) pre @ x # post"
  using assms by (simp add: last_n_def)

lemma phase1_found:
  assumes "\<forall>l \<in> set post. phase1_line ctx l = Inr None"
    and "phase1_line ctx x = Inr (Some v)" and "length post < n"
  shows "phase1 ctx (rev (last_n n (pre @ [x] @ post))) = Inr (Some v)"
proof -
  have "rev (last_n n (pre @ [x] @ post))
        = rev post @ x # rev (last_n (n - 1 - length post) pre)"
    using assms(3) by (simp add: last_n_tail)
  moreover have "\<forall>l \<in> set (rev post). phase1_line ctx l = Inr None"
    using assms(1) by simp
  ultimately show ?thesis
    using assms(2) by (simp add: phase1_skip)
qed



lemma eval_total_459: "find_total_amount (Some ''Total: 459.00'') = Inr (Some (Fin 459))"
  by (simp add: resolver_defs string_defs normalizer_defs has_fractional_def)


lemma eval_coke_source:
  "choose_token ''Coke 1.50'' = Some ''1.50''
   \<and> normalize_number_token ''1.50'' (ocr_context_numbers (text_lines ''Coke 1.50''))
       = Inr (Some (Fin 1.5))
   \<and> py_round2 1.5 = 1.5"
  by (simp add: extractor_defs string_defs normalizer_defs has_fractional_def double_values)

lemma eval_outlier_text:
  "find_total_amount (Some (''50000.0'' @ [CHR 0x0A] @ ''450'')) = Inr (Some (Fin 450))"
  by (simp add: resolver_defs string_defs normalizer_defs has_fractional_def is_fractional_def
      double_values)

lemma eval_tie_text:
  "find_total_amount (Some (''1.5'' @ [CHR 0x0A] @ ''0.03'')) = Inr (Some (Fin 1.5))"
  by (simp add: resolver_defs string_defs normalizer_defs has_fractional_def is_fractional_def
      double_values)

lemma eval_tie_candidates:
  "collect_candidates (nlp_context_numbers (text_lines (''1.5'' @ [CHR 0x0A] @ ''0.03'')))
     (rev (last_n 20 (text_lines (''1.5'' @ [CHR 0x0A] @ ''0.03''))))
   = Inr [(nearest_double 0.03, ''0.03''), (1.5, ''1.5'')]"
  by (simp add: resolver_defs string_defs normalizer_defs has_fractional_def is_fractional_def
      double_values)

lemma eval_tie_values: "(1.5 :: rat) > 50 * nearest_double 0.03"
  by (simp add: double_values)

lemma eval_extract_tiny: "extract_lines_with_prices (Some ''x 0,000.001'') =
  Inr [\<lparr>description = ''x'', price = 0, raw_line = ''x 0,000.001''\<rparr>]"
  by (simp add: extractor_defs string_defs normalizer_defs has_fractional_def is_fractional_def
      double_values)

lemma eval_two_totals:
  "find_total_amount (Some (''Total: 459.00'' @ [CHR 0x0A] @ ''Total: 500.00'')) = Inr (Some (Fin 500))"
  by (simp add: resolver_defs string_defs normalizer_defs has_fractional_def)

lemma eval_lines_two_totals: "text_lines (''Total: 459.00'' @ [CHR 0x0A] @ ''Total: 500.00'') = [''Total: 459.00'', ''Total: 500.00'']"
  by (simp add: string_defs)
lemma eval_lines_receipt: "text_lines (''Pizza 9000.00'' @ [CHR 0x0A] @ ''Total: 459.00'' @ [CHR 0x0A] @ ''Thank you'')
    = [''Pizza 9000.00'', ''Total: 459.00'', ''Thank you'']"
  by (simp add: string_defs)
lemma eval_thank_you: "phase1_line ctx ''Thank you'' = Inr None"
  by (simp add: resolver_defs string_defs)
lemma eval_total_line: "phase1_line ctx ''Total: 459.00'' = Inr (Some (Fin 459))"
  by (simp add: resolver_defs string_defs normalizer_defs)


lemma eval_pizza_phase1:
  "phase1 (nlp_context_numbers (text_lines ''Pizza 250'')) (rev (last_n 12 (text_lines ''Pizza 250'')))
   = Inr None"
  by (simp add: resolver_defs string_defs)

lemma eval_pizza_source:
  "''Pizza 250'' \<in> set (last_n 20 (text_lines ''Pizza 250''))
   \<and> ''250'' \<in> set (amount_tokens ''Pizza 250'')
   \<and> clean_and_convert_token ''250'' (nlp_context_numbers (text_lines ''Pizza 250''))
       = Inr (Some (Fin 250))
   \<and> py_round2 250 = 250"
  by (simp add: resolver_defs string_defs normalizer_defs has_fractional_def)

section \<open>Bounds on rounded values\<close>

lemma round_half_even_le: "y \<le> of_int m \<Longrightarrow> round_half_even y \<le> m"
proof -
  assume a: "y \<le> of_int m"
  then have f: "\<lfloor>y\<rfloor> \<le> m" by (simp add: floor_le_iff)
  show ?thesis
  proof (cases "y - of_int \<lfloor>y\<rfloor> < 1 / 2")
    case True
    with f show ?thesis by (simp add: round_half_even_def)
  next
    case False
    then have "of_int \<lfloor>y\<rfloor> < y" by linarith
    with a have "(of_int \<lfloor>y\<rfloor> :: rat) < of_int m" by linarith
    then have "\<lfloor>y\<rfloor> < m" by (simp only: of_int_less_iff)
    then show ?thesis by (simp add: round_half_even_def)
  qed
qed



lemma nearest_double_le:
  assumes "0 < x" "x \<le> of_int m * 2 powi k" "x < 2 powi (k + 53)" "- 1074 \<le> k"
  shows "nearest_double x \<le> of_int m * 2 powi k"
proof -
  let ?a = "ilog2 x"
  let ?e = "max (?a - 52) (- 1074)"
  from ilog2_bounds [OF assms(1)] assms(3) have "(2::rat) powi ?a < 2 powi (k + 53)" by linarith
  then have "?a < k + 53" by (rule powi_less_imp)
  with assms(4) have le: "?e \<le> k" by simp
  have p: "(0::rat) < 2 powi ?e" by simp
  have "of_int m * (2::rat) powi k / 2 powi ?e = of_int m * 2 powi (k - ?e)"
    by (simp add: power_int_diff)
  also have "\<dots> = of_int m * 2 ^ nat (k - ?e)"
    using le by (simp add: power_int_def)
  also have "\<dots> = of_int (m * 2 ^ nat (k - ?e))" by simp
  finally have q: "of_int m * (2::rat) powi k / 2 powi ?e = of_int (m * 2 ^ nat (k - ?e))" .
  from assms(2) p have "x / 2 powi ?e \<le> of_int m * 2 powi k / 2 powi ?e"
    by (simp only: divide_right_mono less_imp_le)
  with q have "x / 2 powi ?e \<le> of_int (m * 2 ^ nat (k - ?e))" by simp
  then have "round_half_even (x / 2 powi ?e) \<le> m * 2 ^ nat (k - ?e)"
    by (rule round_half_even_le)
  then have "(of_int (round_half_even (x / 2 powi ?e)) :: rat) \<le> of_int (m * 2 ^ nat (k - ?e))"
    by (simp only: of_int_le_iff)
  with p have "of_int (round_half_even (x / 2 powi ?e)) * 2 powi ?e
      \<le> (of_int (m * 2 ^ nat (k - ?e)) :: rat) * 2 powi ?e"
    by (simp only: mult_right_mono less_imp_le)
  also have "\<dots> = of_int m * 2 powi k / 2 powi ?e * 2 powi ?e" by (simp only: q)
  also have "\<dots> = of_int m * 2 powi k" by simp
  finally show ?thesis using assms(1) by (simp add: nearest_double_def)
qed






lemma nearest_double_le_1e22:
  assumes "0 \<le> x" "x \<le> 10 ^ 22"
  shows "nearest_double x \<le> 10 ^ 22"
proof (cases "x = 0")
  case True
  then show ?thesis by (simp add: nearest_double_def)
next
  case False
  with assms have x: "0 < x" by simp
  have c: "(10::rat) ^ 22 = of_int 2384185791015625 * 2 powi 22" by simp
  have "(10::rat) ^ 22 < 2 powi (22 + 53)" by simp
  with assms(2) have b: "x < 2 powi (22 + 53)" by (rule le_less_trans)
  from assms(2) c have a: "x \<le> of_int 2384185791015625 * 2 powi 22" by (simp only:)
  have "nearest_double x \<le> of_int 2384185791015625 * 2 powi 22"
    using x a b by (rule nearest_double_le) simp
  with c show ?thesis by (simp only:)
qed

section \<open>Properties of the association\<close>

lemma remdups_snoc: "remdups (zs @ [x]) = remdups (filter (\<lambda>y. y \<noteq> x) zs) @ [x]"
  by (induction zs) auto

lemma first_seen_Cons:
  "rev (remdups (rev (x # ys))) = x # rev (remdups (rev (filter (\<lambda>y. y \<noteq> x) ys)))"
  by (simp add: remdups_snoc rev_filter)

lemma fromkeys_fold:
  "foldl (\<lambda>keys x. if x \<in> set keys then keys else keys @ [x]) acc xs
   = acc @ rev (remdups (rev (filter (\<lambda>x. x \<notin> set acc) xs)))"
proof (induction xs arbitrary: acc)
  case Nil
  show ?case by simp
next
  case (Cons x xs)
  show ?case
  proof (cases "x \<in> set acc")
    case True
    with Cons show ?thesis by simp
  next
    case False
    have "filter (\<lambda>y. y \<noteq> x) (filter (\<lambda>y. y \<notin> set acc) xs)
          = filter (\<lambda>y. y \<notin> set (acc @ [x])) xs"
      by (induction xs) auto
    with False Cons [of "acc @ [x]"] show ?thesis
      by (simp add: first_seen_Cons del: rev.simps remdups.simps)
  qed
qed

lemma dict_fromkeys_first_seen: "dict_fromkeys xs = rev (remdups (rev xs))"
  using fromkeys_fold [of "[]" xs] by (simp add: dict_fromkeys_def)

lemma name_assigned_iff:
  "name_assigned lt raw name \<longleftrightarrow>
     2 \<le> length (py_strip name)
     \<and> (word_search (py_lower name) raw
        \<or> (\<exists>idx. py_find raw lt = Some idx
              \<and> word_search (py_lower name) (py_slice (idx - 80) (idx + 80 + length raw) lt)))"
proof -
  have "name = [] \<Longrightarrow> py_strip name = []" by (simp add: py_strip_def)
  then have "\<not> (name = [] \<or> length (py_strip name) < 2) \<longleftrightarrow> 2 \<le> length (py_strip name)"
    by auto
  then show ?thesis
    unfolding name_assigned_def by (auto split: option.splits)
qed

lemma assign_items_keys: "(k, ns) \<in> set (assign_items ps lt i items) \<Longrightarrow> i \<le> k"
proof (induction items arbitrary: i)
  case Nil
  then show ?case by simp
next
  case (Cons it items)
  then show ?case by (fastforce simp: Let_def split: if_splits)
qed

lemma map_of_assign_items:
  "map_of (assign_items ps lt k items) j =
     (if k \<le> j \<and> j < k + length items
      then (let a = filter (name_assigned lt (py_lower (raw_line (items ! (j - k))))) ps
            in if a = [] then None else Some (dict_fromkeys a))
      else None)"
proof (induction items arbitrary: k j)
  case Nil
  show ?case by auto
next
  case (Cons it items)
  let ?a = "filter (name_assigned lt (py_lower (raw_line it))) ps"
  let ?rest = "assign_items ps lt (Suc k) items"
  have unf: "assign_items ps lt k (it # items)
       = (if ?a \<noteq> [] then [(k, dict_fromkeys ?a)] else []) @ ?rest"
    by (simp add: Let_def)
  show ?case
  proof (cases "j = k")
    case True
    have "map_of ?rest k = None"
      using Cons [of "Suc k" k] by simp
    with True show ?thesis
      unfolding unf by (simp add: Let_def map_add_def)
  next
    case False
    then have "map_of (assign_items ps lt k (it # items)) j = map_of ?rest j"
      unfolding unf by (simp add: map_add_def split: option.splits)
    also have "\<dots> = (if Suc k \<le> j \<and> j < Suc k + length items
      then (let a = filter (name_assigned lt (py_lower (raw_line (items ! (j - Suc k))))) ps
            in if a = [] then None else Some (dict_fromkeys a))
      else None)"
      by (rule Cons)
    also have "\<dots> = (if k \<le> j \<and> j < k + length (it # items)
      then (let a = filter (name_assigned lt (py_lower (raw_line ((it # items) ! (j - k))))) ps
            in if a = [] then None else Some (dict_fromkeys a))
      else None)"
      using False by (auto simp: nth_Cons' Let_def)
    finally show ?thesis .
  qed
qed

lemma association_full:
  assumes "text \<noteq> []"
  shows "map_of (detect_person_item_relations name_source items (Some text)) i =
     (if i < length items then
        (let raw = py_lower (raw_line (items ! i));
             matched =
               filter
                 (\<lambda>name. 2 \<le> length (py_strip name)
                    \<and> (word_search (py_lower name) raw
                       \<or> (\<exists>idx. py_find raw (py_lower text) = Some idx
                             \<and> word_search (py_lower name)
                                  (py_slice (idx - 80) (idx + 80 + length raw) (py_lower text)))))
                 (name_source text)
         in if matched = [] then None else Some (rev (remdups (rev matched))))
      else None)"
proof (cases "items = []")
  case True
  then show ?thesis by (simp add: detect_person_item_relations_def)
next
  case False
  with assms have "detect_person_item_relations name_source items (Some text)
      = assign_items (name_source text) (py_lower text) 0 items"
    by (simp add: detect_person_item_relations_def)
  then show ?thesis
    by (simp add: map_of_assign_items name_assigned_iff [abs_def] dict_fromkeys_first_seen Let_def)
qed

section \<open>The entry points return\<close>

text \<open>
  A token captured by one of the regular expressions has at most 22 characters, so the
  integer it denotes is far below the range where \<^verbatim>\<open>float(val)\<close> overflows: the
  resolver and the extractor never raise, and the values they normalize are finite.
\<close>

lemma digit_val_le: "is_digit c \<Longrightarrow> digit_val c \<le> 9"
  by (auto simp: is_digit_def digit_val_def)

lemma dec_val_less: "list_all is_digit s \<Longrightarrow> dec_val s < 10 ^ length s"
proof (induction s rule: rev_induct)
  case Nil
  show ?case by (simp add: dec_val_def)
next
  case (snoc c s)
  then have "dec_val s < 10 ^ length s" and "digit_val c \<le> 9"
    by (simp_all add: digit_val_le)
  then have "10 * dec_val s + digit_val c < 10 * 10 ^ length s" by linarith
  then show ?case by (simp add: dec_val_snoc)
qed

lemma py_int_bound:
  assumes "py_int s = Some val"
  shows "val < 10 ^ length s"
proof -
  from assms have d: "list_all is_digit s" and v: "val = int (dec_val s)"
    by (auto simp: py_int_def split: if_splits)
  from dec_val_less [OF d] have "int (dec_val s) < int (10 ^ length s)"
    by (simp only: of_nat_less_iff)
  with v show ?thesis by simp
qed

lemma float_div_100_finite:
  assumes "0 \<le> val" "val < 10 ^ 22"
  shows "\<exists>r. float_div_100 val = Inr (Some (Fin r))"
proof -
  from assms(2) have "(of_int val :: rat) < of_int (10 ^ 22)" by (simp only: of_int_less_iff)
  then have "(of_int val :: rat) \<le> 10 ^ 22" by simp
  moreover from assms(1) have "(0::rat) \<le> of_int val" by simp
  ultimately have "nearest_double (of_int val) \<le> 10 ^ 22" by (intro nearest_double_le_1e22)
  then have "nearest_double (of_int val) / 100 \<le> 10 ^ 22 / 100" by (simp only: divide_right_mono)
  also have "(10::rat) ^ 22 / 100 < 10 ^ 22" by simp
  finally have "to_float (nearest_double (of_int val) / 100)
      = Fin (nearest_double (nearest_double (of_int val) / 100))"
    by (rule to_float_small)
  with short_int_converts [OF assms(2)] show ?thesis
    by (simp add: float_div_100_def float_div_def)
qed

lemma py_float_finite:
  assumes "length s \<le> 22"
  shows "py_float s = None \<or> (\<exists>r. py_float s = Some (Fin r))"
proof -
  let ?a = "takeWhile (\<lambda>c. c \<noteq> CHR ''.'') s"
  let ?b = "drop 1 (dropWhile (\<lambda>c. c \<noteq> CHR ''.'') s)"
  show ?thesis
  proof (cases "list_all is_digit ?a \<and> list_all is_digit ?b \<and> ?a @ ?b \<noteq> []")
    case False
    then have "py_float s = None" by (simp add: py_float_def Let_def)
    then show ?thesis by simp
  next
    case True
    then have d: "list_all is_digit (?a @ ?b)" by simp
    have "length (?a @ dropWhile (\<lambda>c. c \<noteq> CHR ''.'') s) = length s"
      by (simp only: takeWhile_dropWhile_id)
    then have "length ?a + length (dropWhile (\<lambda>c. c \<noteq> CHR ''.'') s) = length s"
      by (simp only: length_append)
    then have "length (?a @ ?b) \<le> length s" by simp
    with assms have len: "length (?a @ ?b) \<le> 22" by linarith
    have "(10::nat) ^ length (?a @ ?b) \<le> 10 ^ 22"
      using len by (intro power_increasing) simp_all
    with dec_val_less [OF d] have "dec_val (?a @ ?b) < 10 ^ 22" by (rule less_le_trans)
    then have "(of_nat (dec_val (?a @ ?b)) :: rat) < of_nat (10 ^ 22)"
      by (simp only: of_nat_less_iff)
    then have n: "(of_nat (dec_val (?a @ ?b)) :: rat) < 10 ^ 22" by simp
    have "(1::rat) \<le> 10 ^ length ?b" by simp
    then have "(of_nat (dec_val (?a @ ?b)) :: rat) * 1 \<le> of_nat (dec_val (?a @ ?b)) * 10 ^ length ?b"
      by (intro mult_left_mono) simp_all
    then have "(of_nat (dec_val (?a @ ?b)) :: rat) / 10 ^ length ?b \<le> of_nat (dec_val (?a @ ?b))"
      by (simp add: pos_divide_le_eq)
    from this n have "(of_nat (dec_val (?a @ ?b)) :: rat) / 10 ^ length ?b < 10 ^ 22"
      by (rule le_less_trans)
    then have "to_float (of_nat (dec_val (?a @ ?b)) / 10 ^ length ?b)
        = Fin (nearest_double (of_nat (dec_val (?a @ ?b)) / 10 ^ length ?b))"
      by (rule to_float_small)
    with True have "py_float s
        = Some (Fin (nearest_double (of_nat (dec_val (?a @ ?b)) / 10 ^ length ?b)))"
      by (simp add: py_float_def Let_def)
    then show ?thesis by blast
  qed
qed

lemma nlp_convert_short:
  assumes "length s \<le> 22"
  shows "\<exists>r. nlp_convert s ctx = Inr r \<and> r \<noteq> Some PInf"
proof (cases "CHR ''.'' \<in> set s")
  case True
  with py_float_finite [OF assms] show ?thesis by (auto simp: nlp_convert_def)
next
  case dot: False
  show ?thesis
  proof (cases "py_int s")
    case None
    with dot show ?thesis by (simp add: nlp_convert_def)
  next
    case (Some val)
    have "(10::int) ^ length s \<le> 10 ^ 22"
      using assms by (intro power_increasing) simp_all
    with py_int_bound [OF Some] have b: "val < 10 ^ 22" by (rule less_le_trans)
    from Some have n: "0 \<le> val" by (auto simp: py_int_def split: if_splits)
    from float_div_100_finite [OF n b] obtain r where r: "float_div_100 val = Inr (Some (Fin r))"
      by blast
    have "float_val val = Inr (Some (Fin (nearest_double (of_int val))))"
      using short_int_converts [OF b] by (simp add: float_val_def)
    with r Some dot show ?thesis by (simp add: nlp_convert_def)
  qed
qed

lemma length_nlp_separators: "length (nlp_separators s) \<le> length s"
  using nlp_separators_cases [of s]
  by (auto simp: py_remove_def py_replace_def intro: le_trans)

lemma length_py_strip: "length (py_strip s) \<le> length s"
proof -
  have "length (dropWhile is_space (rev (dropWhile is_space s))) \<le> length (dropWhile is_space s)"
    using length_dropWhile_le [of is_space "rev (dropWhile is_space s)"] by simp
  also have "\<dots> \<le> length s" by (rule length_dropWhile_le)
  finally show ?thesis by (simp add: py_strip_def)
qed

lemma length_strip_char: "length (strip_char c s) \<le> length s"
proof -
  let ?P = "\<lambda>x. x = c"
  have "length (dropWhile ?P (rev (dropWhile ?P s))) \<le> length (dropWhile ?P s)"
    using length_dropWhile_le [of ?P "rev (dropWhile ?P s)"] by simp
  also have "\<dots> \<le> length s" by (rule length_dropWhile_le)
  finally show ?thesis by (simp add: strip_char_def)
qed

lemma nlp_short_token:
  assumes "length tok \<le> 22"
  shows "\<exists>r. clean_and_convert_token tok ctx = Inr r \<and> r \<noteq> Some PInf"
proof -
  let ?s = "filter (\<lambda>c. is_digit c \<or> c = CHR ''.'' \<or> c = CHR '','') (py_strip tok)"
  have "length ?s \<le> length (py_strip tok)" by (rule length_filter_le)
  also have "\<dots> \<le> length tok" by (rule length_py_strip)
  finally have "length (nlp_separators ?s) \<le> 22"
    using length_nlp_separators [of ?s] assms by linarith
  from nlp_convert_short [OF this] show ?thesis
    by (simp add: clean_and_convert_token_def Let_def)
qed

lemma ocr_short_token:
  assumes "length tok \<le> 22"
  shows "\<exists>r. normalize_number_token tok ctx = Inr r"
proof -
  let ?u = "filter (\<lambda>c. is_digit c \<or> c = CHR '','' \<or> c = CHR ''.'' \<or> c = CHR ''-'')
               (py_strip tok)"
  let ?w = "strip_char (CHR ''.'') (ocr_separators ?u)"
  let ?z = "ocr_fallback ?w"
  have "length ?u \<le> length (py_strip tok)" by (rule length_filter_le)
  also have "\<dots> \<le> length tok" by (rule length_py_strip)
  finally have a: "length ?u \<le> 22" using assms by linarith
  have "length ?w \<le> length (ocr_separators ?u)" by (rule length_strip_char)
  also have "\<dots> \<le> length ?u"
    by (simp only: separators_agree length_nlp_separators)
  finally have b: "length ?w \<le> 22" using a by linarith
  have "length ?z \<le> length ?w"
    by (simp add: ocr_fallback_def)
  with b have c: "length ?z \<le> 22" by linarith
  have "\<exists>r. ocr_convert ?z ctx = Inr r"
  proof (cases "?z = []")
    case True
    then show ?thesis by (simp add: ocr_convert_def)
  next
    case False
    from nlp_convert_short [OF c] obtain r where "nlp_convert ?z ctx = Inr r" by blast
    with False show ?thesis by (simp add: convert_agree)
  qed
  then show ?thesis by (simp add: normalize_number_token_def)
qed

lemma match_amount_length: "match_amount s = Some tok \<Longrightarrow> length tok \<le> 22"
proof -
  assume a: "match_amount s = Some tok"
  then obtain d r where s: "s = d # r" by (cases s) (auto simp: match_amount_def)
  let ?w = "rev (dropWhile (\<lambda>c. \<not> is_digit c) (rev (take 21 (takeWhile is_numch r))))"
  from a s have tok: "tok = d # ?w"
    by (auto simp: match_amount_def Let_def split: if_splits)
  have "length ?w \<le> length (rev (take 21 (takeWhile is_numch r)))"
    using length_dropWhile_le [of "\<lambda>c. \<not> is_digit c" "rev (take 21 (takeWhile is_numch r))"]
    by simp
  also have "\<dots> \<le> 21" by simp
  finally show ?thesis using tok by simp
qed

lemma amount_tokens_from_length:
  "\<forall>tok \<in> set (amount_tokens_from k s). length tok \<le> 22"
proof (induction s arbitrary: k)
  case Nil
  show ?case by simp
next
  case (Cons x xs)
  show ?case
  proof (cases "k > 0")
    case True
    with Cons show ?thesis by simp
  next
    case False
    show ?thesis
    proof (cases "match_amount (x # xs)")
      case None
      with False Cons show ?thesis by simp
    next
      case (Some tok)
      from match_amount_length [OF Some] Some False Cons [of "length tok - 1"]
      show ?thesis by simp
    qed
  qed
qed

lemma amount_tokens_length: "tok \<in> set (amount_tokens s) \<Longrightarrow> length tok \<le> 22"
  using amount_tokens_from_length [of 0 s] by (simp add: amount_tokens_def)

lemma total_kw_search_length: "total_kw_search s = Some tok \<Longrightarrow> length tok \<le> 22"
proof (induction s)
  case Nil
  then show ?case by simp
next
  case (Cons x xs)
  show ?case
  proof (cases "total_kw_here (x # xs)")
    case None
    with Cons show ?thesis by simp
  next
    case (Some t)
    with Cons.prems have "total_kw_here (x # xs) = Some tok" by simp
    then obtain u where "match_amount u = Some tok"
      by (auto simp: total_kw_here_def kw_here_def kw_tail_def Let_def
          split: option.splits if_splits)
    then show ?thesis by (rule match_amount_length)
  qed
qed

lemma phase1_line_returns: "\<exists>r. phase1_line ctx l = Inr r"
proof (cases "total_kw_search l")
  case None
  then show ?thesis by (simp add: phase1_line_def)
next
  case (Some tok)
  from nlp_short_token [OF total_kw_search_length [OF Some]]
  obtain r where "clean_and_convert_token tok ctx = Inr r" by blast
  with Some show ?thesis by (cases r) (simp_all add: phase1_line_def)
qed


lemma phase1_returns: "\<exists>r. phase1 ctx ls = Inr r"
proof (induction ls)
  case Nil
  show ?case by simp
next
  case (Cons l ls)
  from phase1_line_returns obtain r where r: "phase1_line ctx l = Inr r" by blast
  with Cons show ?case by (cases r) auto
qed

lemma token_candidates_returns:
  "\<forall>tok \<in> set toks. length tok \<le> 22 \<Longrightarrow> \<exists>cs. token_candidates ctx l toks = Inr cs"
proof (induction toks)
  case Nil
  show ?case by simp
next
  case (Cons tok toks)
  then have "length tok \<le> 22" by simp
  from nlp_short_token [OF this] obtain r where "clean_and_convert_token tok ctx = Inr r"
    by blast
  moreover from Cons obtain cs where "token_candidates ctx l toks = Inr cs" by auto
  ultimately show ?case by simp
qed

lemma collect_candidates_returns: "\<exists>cs. collect_candidates ctx ls = Inr cs"
proof (induction ls)
  case Nil
  show ?case by simp
next
  case (Cons l ls)
  have "\<forall>tok \<in> set (amount_tokens l). length tok \<le> 22"
    using amount_tokens_length by blast
  from token_candidates_returns [OF this]
  obtain c1 where "token_candidates ctx l (amount_tokens l) = Inr c1" by blast
  moreover from Cons obtain c2 where "collect_candidates ctx ls = Inr c2" by blast
  ultimately show ?case by simp
qed

lemma find_total_amount_returns: "\<exists>r. find_total_amount raw_text = Inr r"
proof -
  have "\<exists>r. resolve_lines ls = Inr r" for ls
  proof -
    let ?ctx = "nlp_context_numbers ls"
    from phase1_returns obtain r1 where r1: "phase1 ?ctx (rev (last_n 12 ls)) = Inr r1"
      by blast
    from collect_candidates_returns
    obtain cs where cs: "collect_candidates ?ctx (rev (last_n 20 ls)) = Inr cs" by blast
    from r1 cs show ?thesis
      by (cases r1) (simp_all add: resolve_lines_def phase2_def)
  qed
  then show ?thesis
    by (simp add: find_total_amount_def split: option.splits)
qed

lemma rightmost_search_length: "rightmost_search s = Some tok \<Longrightarrow> length tok \<le> 22"
proof (induction s)
  case Nil
  then show ?case by simp
next
  case (Cons x xs)
  show ?case
  proof (cases "match_rightmost (x # xs)")
    case None
    with Cons show ?thesis by simp
  next
    case (Some t)
    with Cons.prems have "match_rightmost (x # xs) = Some tok" by simp
    then show ?thesis by (auto simp: match_rightmost_def Let_def split: if_splits)
  qed
qed

lemma choose_token_length: "choose_token l = Some tok \<Longrightarrow> length tok \<le> 22"
proof -
  assume a: "choose_token l = Some tok"
  show ?thesis
  proof (cases "rightmost_search l")
    case (Some t)
    with a have "rightmost_search l = Some tok" by (simp add: choose_token_def)
    then show ?thesis by (rule rightmost_search_length)
  next
    case None
    with a obtain rest where "amount_tokens l = tok # rest"
      by (auto simp: choose_token_def split: list.splits)
    then have "tok \<in> set (amount_tokens l)" by simp
    then show ?thesis by (rule amount_tokens_length)
  qed
qed

lemma extract_line_returns: "\<exists>r. extract_line ctx l = Inr r"
proof (cases "choose_token l")
  case None
  then show ?thesis by (simp add: extract_line_def)
next
  case (Some chosen)
  from ocr_short_token [OF choose_token_length [OF Some]]
  obtain r where "normalize_number_token chosen ctx = Inr r" by blast
  with Some show ?thesis
    by (auto simp: extract_line_def split: option.splits pyfloat.splits)
qed

lemma extract_loop_returns: "\<exists>items. extract_loop ctx ls = Inr items"
proof (induction ls)
  case Nil
  show ?case by simp
next
  case (Cons l ls)
  from extract_line_returns obtain r where "extract_line ctx l = Inr r" by blast
  moreover from Cons obtain items where "extract_loop ctx ls = Inr items" by blast
  ultimately show ?case by simp
qed

lemma extract_returns: "\<exists>items. extract_lines_with_prices raw_text = Inr items"
  using extract_loop_returns
  by (simp add: extract_lines_with_prices_def split: option.splits)




lemmas association_defs =
  detect_person_item_relations_def name_assigned_def word_search_def word_match_here_def
  word_boundary_def head_opt_def is_word_char_def py_slice_def dict_fromkeys_def
  py_strip_def is_space_def py_lower_def py_lower_char_def char_of_def bit_Suc_0_iff

lemma eval_john:
  "detect_person_item_relations (\<lambda>t. [''John''])
     [\<lparr>description = ''John Burger'', price = 8, raw_line = ''John Burger 8.00''\<rparr>]
     (Some ''John Burger 8.00'') = [(0, [''John''])]"
  by (simp add: association_defs)

lemma eval_short_name:
  "detect_person_item_relations (\<lambda>t. [''J''])
     [\<lparr>description = ''J Burger'', price = 8, raw_line = ''J Burger 8.00''\<rparr>]
     (Some ''J Burger 8.00'') = []"
  by (simp add: association_defs)

lemma eval_short_name_matches: "word_search (py_lower ''J'') (py_lower ''J Burger 8.00'')"
  by (simp add: association_defs)

lemma eval_no_occurrence:
  "detect_person_item_relations (\<lambda>t. [''John''])
     [\<lparr>description = ''Burger'', price = 8, raw_line = ''Burger 8.00''\<rparr>]
     (Some ''Burger 8.00'') = []"
  by (simp add: association_defs)


lemma eval_tie_phase1:
  "phase1 (nlp_context_numbers (text_lines (''1.5'' @ [CHR 0x0A] @ ''0.03'')))
     (rev (last_n 12 (text_lines (''1.5'' @ [CHR 0x0A] @ ''0.03'')))) = Inr None"
  by (simp add: resolver_defs string_defs)

lemma eval_tie_round: "py_round2 (nearest_double 0.03) \<noteq> 1.5"
  by (simp add: py_round2_def rounding_evals double_values)

lemma eval_tie_pick: "pick_total [(nearest_double 0.03, ''0.03''), (1.5, ''1.5'')] = Some 1.5"
  by (simp add: pick_total_def py_round2_def rounding_evals double_evals double_values)

section \<open>The claims on the resolver, the extractor and the association\<close>




text \<open>
  Claim C4, as amended: in phase 2, with at least two plausible candidates, the sorted
  candidates begin with the highest value \<open>t\<close> and the second-highest \<open>s\<close>; the result is \<open>s\<close>
  rounded to two decimals when the quotient \<open>t / s\<close>, rounded to a double as line 136
  computes it, is above 50, and \<open>t\<close> rounded otherwise; a single candidate is returned
  rounded; candidates \<open>[50000, 450]\<close> give \<open>450.0\<close>, also through the whole resolver on the
  text \<^verbatim>\<open>"50000.0\n450"\<close>.
\<close>

theorem phase2_outlier_rule:
  "((\<forall>(v, l) \<in> set cs. 0 < v \<and> v < 10000000) \<and> 2 \<le> length cs \<longrightarrow>
      (\<exists>t l1 s l2 rest.
          mset ((t, l1) # (s, l2) # rest) = mset cs \<and> s \<le> t \<and> (\<forall>(v, l) \<in> set rest. v \<le> s)
          \<and> pick_total cs
             = Some (py_round2 (if float_gt (float_div t s) 50 then s else t))))
   \<and> pick_total [(v, l)] = Some (py_round2 v)
   \<and> pick_total [(50000, l1), (450, l2)] = Some 450
   \<and> find_total_amount (Some (''50000.0'' @ [CHR 0x0A] @ ''450'')) = Inr (Some (Fin 450))"
  using pick_total_rule [of cs] pick_total_single [of v l] pick_total_example [of l1 l2]
    eval_outlier_text
  by blast

theorem phase2_outlier_rule_witness:
  "(0 < (50000 :: rat) \<and> (50000 :: rat) < 10000000 \<and> 0 < (450 :: rat) \<and> (450 :: rat) < 10000000)
   \<and> 2 \<le> length [(50000 :: rat, ''a''), (450, ''b'')]
   \<and> (\<exists>t l1 s l2 rest.
          mset ((t, l1) # (s, l2) # rest) = mset [(50000 :: rat, ''a''), (450, ''b'')] \<and> s \<le> t
          \<and> pick_total [(50000, ''a''), (450, ''b'')]
             = Some (py_round2 (if float_gt (float_div t s) 50 then s else t)))"
proof -
  have "(\<forall>(v, l) \<in> set [(50000 :: rat, ''a''), (450, ''b'')]. 0 < v \<and> v < 10000000)
        \<and> 2 \<le> length [(50000 :: rat, ''a''), (450, ''b'')]"
    by simp
  with phase2_outlier_rule [of "[(50000, ''a''), (450, ''b'')]"]
  obtain t l1 s l2 rest where
    "mset ((t, l1) # (s, l2) # rest) = mset [(50000 :: rat, ''a''), (450, ''b'')]" "s \<le> t"
    "pick_total [(50000, ''a''), (450, ''b'')]
       = Some (py_round2 (if float_gt (float_div t s) 50 then s else t))"
    by blast
  then have ex: "\<exists>t l1 s l2 rest.
          mset ((t, l1) # (s, l2) # rest) = mset [(50000 :: rat, ''a''), (450, ''b'')] \<and> s \<le> t
          \<and> pick_total [(50000, ''a''), (450, ''b'')]
             = Some (py_round2 (if float_gt (float_div t s) 50 then s else t))"
    by blast
  have n: "0 < (50000 :: rat) \<and> (50000 :: rat) < 10000000 \<and> 0 < (450 :: rat)
           \<and> (450 :: rat) < 10000000"
    by simp
  have len: "2 \<le> length [(50000 :: rat, ''a''), (450, ''b'')]" by simp
  from n len ex show ?thesis by blast
qed

text \<open>
  Claim C4 as stated fails where the rounding of the quotient hides the excess: on the text
  \<^verbatim>\<open>"1.5\n0.03"\<close> phase 1 finds nothing, the candidates are the doubles \<open>1.5\<close> and the one
  nearest to \<open>0.03\<close>, the first is more than 50 times the second, yet their quotient rounds
  to \<open>50.0\<close> and the resolver returns \<open>1.5\<close>, the highest.
\<close>

theorem quotient_rounds_to_fifty:
  "phase1 (nlp_context_numbers (text_lines (''1.5'' @ [CHR 0x0A] @ ''0.03'')))
     (rev (last_n 12 (text_lines (''1.5'' @ [CHR 0x0A] @ ''0.03'')))) = Inr None
   \<and> collect_candidates (nlp_context_numbers (text_lines (''1.5'' @ [CHR 0x0A] @ ''0.03'')))
       (rev (last_n 20 (text_lines (''1.5'' @ [CHR 0x0A] @ ''0.03''))))
     = Inr [(nearest_double 0.03, ''0.03''), (1.5, ''1.5'')]
   \<and> (1.5 :: rat) > 50 * nearest_double 0.03
   \<and> pick_total [(nearest_double 0.03, ''0.03''), (1.5, ''1.5'')] = Some 1.5
   \<and> find_total_amount (Some (''1.5'' @ [CHR 0x0A] @ ''0.03'')) = Inr (Some (Fin 1.5))
   \<and> py_round2 (nearest_double 0.03) \<noteq> 1.5"
  using eval_tie_phase1 eval_tie_candidates eval_tie_values eval_tie_pick eval_tie_text
    eval_tie_round
  by blast

text \<open>
  Claim C5, as amended: when the non-empty lines of the text end with the line
  \<^verbatim>\<open>"Total: 459.00"\<close> followed by fewer than 12 lines, none of which yields an explicit
  total in phase 1, \<^verbatim>\<open>find_total_amount\<close> returns \<open>459.0\<close>, whatever numbers the earlier lines
  hold.
\<close>

theorem explicit_total_wins:
  assumes "text_lines t = pre @ [''Total: 459.00''] @ post"
    and "length post < 12"
    and "\<forall>l \<in> set post. phase1_line (nlp_context_numbers (text_lines t)) l = Inr None"
  shows "find_total_amount (Some t) = Inr (Some (Fin 459))"
proof -
  from assms(1) have "text_lines t \<noteq> []" by simp
  then have ne: "t \<noteq> []" by (auto simp: text_lines_def)
  let ?ctx = "nlp_context_numbers (text_lines t)"
  have "phase1 ?ctx (rev (last_n 12 (pre @ [''Total: 459.00''] @ post))) = Inr (Some (Fin 459))"
    using assms(3) eval_total_line assms(2) by (rule phase1_found)
  with assms(1) have "phase1 ?ctx (rev (last_n 12 (text_lines t))) = Inr (Some (Fin 459))"
    by simp
  with ne show ?thesis
    by (simp add: find_total_amount_def resolve_lines_def)
qed

theorem explicit_total_wins_witness:
  "text_lines (''Pizza 9000.00'' @ [CHR 0x0A] @ ''Total: 459.00'' @ [CHR 0x0A] @ ''Thank you'')
     = [''Pizza 9000.00''] @ [''Total: 459.00''] @ [''Thank you'']
   \<and> length [''Thank you''] < 12
   \<and> phase1_line
        (nlp_context_numbers
          (text_lines (''Pizza 9000.00'' @ [CHR 0x0A] @ ''Total: 459.00'' @ [CHR 0x0A] @ ''Thank you'')))
        ''Thank you'' = Inr None
   \<and> find_total_amount
        (Some (''Pizza 9000.00'' @ [CHR 0x0A] @ ''Total: 459.00'' @ [CHR 0x0A] @ ''Thank you''))
       = Inr (Some (Fin 459))"
proof -
  let ?t = "''Pizza 9000.00'' @ [CHR 0x0A] @ ''Total: 459.00'' @ [CHR 0x0A] @ ''Thank you''"
  have a: "text_lines ?t = [''Pizza 9000.00''] @ [''Total: 459.00''] @ [''Thank you'']"
    using eval_lines_receipt by simp
  have b: "length [''Thank you''] < 12" by simp
  have c: "\<forall>l \<in> set [''Thank you'']. phase1_line (nlp_context_numbers (text_lines ?t)) l = Inr None"
    by (simp add: eval_thank_you)
  from explicit_total_wins [OF a b c] a c show ?thesis by simp
qed

text \<open>
  Claim C5 as stated fails when a later line also carries an explicit total: the scan runs
  from the end, so the text \<^verbatim>\<open>"Total: 459.00\nTotal: 500.00"\<close> resolves to \<open>500.0\<close>.
\<close>

theorem later_total_wins:
  "''Total: 459.00''
     \<in> set (last_n 12 (text_lines (''Total: 459.00'' @ [CHR 0x0A] @ ''Total: 500.00'')))
   \<and> find_total_amount (Some (''Total: 459.00'' @ [CHR 0x0A] @ ''Total: 500.00''))
       = Inr (Some (Fin 500))
   \<and> Fin 500 \<noteq> Fin 459"
  using eval_two_totals eval_lines_two_totals by (simp add: last_n_def)

text \<open>
  Claim C6: every item emitted has a price above zero. The guard of line 239 is applied
  before the rounding of line 242: the line \<^verbatim>\<open>"x 0,000.001"\<close> normalizes to \<open>0.001\<close>, passes
  the guard and is emitted with the price \<open>0.0\<close>.
\<close>

theorem rounded_price_zero:
  "extract_lines_with_prices (Some ''x 0,000.001'')
   = Inr [\<lparr>description = ''x'', price = 0, raw_line = ''x 0,000.001''\<rparr>]"
  by (rule eval_extract_tiny)

text \<open>
  Claim C7, as amended: for a non-empty text, the association holds an entry for item \<open>i\<close>
  exactly when some candidate name of at least two characters after stripping matches as a
  whole word, without regard to case, in the item's raw line or in the window of 80
  characters on either side of the first occurrence of the raw line in the text; the entry
  lists the matching names once each, in the order they were first seen.
\<close>

theorem association_entries:
  assumes "text \<noteq> []"
  shows "map_of (detect_person_item_relations name_source items (Some text)) i =
     (if i < length items then
        (let raw = py_lower (raw_line (items ! i));
             matched =
               filter
                 (\<lambda>name. 2 \<le> length (py_strip name)
                    \<and> (word_search (py_lower name) raw
                       \<or> (\<exists>idx. py_find raw (py_lower text) = Some idx
                             \<and> word_search (py_lower name)
                                  (py_slice (idx - 80) (idx + 80 + length raw) (py_lower text)))))
                 (name_source text)
         in if matched = [] then None else Some (rev (remdups (rev matched))))
      else None)"
  using assms by (rule association_full)

theorem association_entries_witness:
  "''John Burger 8.00'' \<noteq> []
   \<and> map_of (detect_person_item_relations (\<lambda>t. [''John''])
        [\<lparr>description = ''John Burger'', price = 8, raw_line = ''John Burger 8.00''\<rparr>]
        (Some ''John Burger 8.00'')) 0 = Some [''John'']
   \<and> detect_person_item_relations (\<lambda>t. [''John''])
        [\<lparr>description = ''John Burger'', price = 8, raw_line = ''John Burger 8.00''\<rparr>]
        (Some ''John Burger 8.00'') = [(0, [''John''])]
   \<and> detect_person_item_relations (\<lambda>t. [''John''])
        [\<lparr>description = ''Burger'', price = 8, raw_line = ''Burger 8.00''\<rparr>]
        (Some ''Burger 8.00'') = []"
proof -
  have ne: "''John Burger 8.00'' \<noteq> []" by simp
  have "word_search (py_lower ''John'') (py_lower ''John Burger 8.00'')"
    by (simp add: association_defs)
  moreover have "2 \<le> length (py_strip ''John'')"
    by (simp add: py_strip_def is_space_def)
  ultimately show ?thesis
    using association_entries [OF ne, of "\<lambda>t. [''John'']"
        "[\<lparr>description = ''John Burger'', price = 8, raw_line = ''John Burger 8.00''\<rparr>]" 0]
      eval_john eval_no_occurrence
    by simp
qed

text \<open>
  Claim C7 as stated fails for a candidate name of one character, which line 179 skips:
  \<^verbatim>\<open>"J"\<close> is a whole word of the raw line \<^verbatim>\<open>"J Burger 8.00"\<close> and no entry is recorded.
\<close>

theorem short_name_skipped:
  "detect_person_item_relations (\<lambda>t. [''J''])
     [\<lparr>description = ''J Burger'', price = 8, raw_line = ''J Burger 8.00''\<rparr>]
     (Some ''J Burger 8.00'') = []
   \<and> word_search (py_lower ''J'') (py_lower ''J Burger 8.00'')"
  using eval_short_name eval_short_name_matches by simp

text \<open>
  Claim C8: on an empty or missing text the extractor returns the empty list, the resolver
  returns \<open>None\<close> and the association is empty; none of them raises.
\<close>

theorem empty_input:
  "extract_lines_with_prices None = Inr [] \<and> extract_lines_with_prices (Some []) = Inr []
   \<and> find_total_amount None = Inr None \<and> find_total_amount (Some []) = Inr None
   \<and> detect_person_item_relations name_source items None = []
   \<and> detect_person_item_relations name_source items (Some []) = []"
  by (simp add: extract_lines_with_prices_def find_total_amount_def
      detect_person_item_relations_def)


end
